theory Spec2Isabelle
  imports Main
begin

section \<open>Data model (models.py)\<close>

text \<open>
  \<^verbatim>\<open>BorrowRequest.STATUS_CHOICES\<close>: the seven values the \<^verbatim>\<open>status\<close> column can hold.
\<close>

datatype status = Pending | Approved | Rejected | Issued | Returned | Overdue | Cancelled

text \<open>
  \<^verbatim>\<open>Equipment\<close>: the columns the lending logic reads or writes. The descriptive columns
  (category, description, condition, serial number, location, purchase date, timestamps)
  take part in no computation of the modelled operations and are left out. Django's
  \<^verbatim>\<open>IntegerField\<close> holds Python integers, so the quantities are unbounded \<open>int\<close>.
\<close>

record equipment =
  eq_id :: nat
  eq_name :: string
  total_quantity :: int
  available_quantity :: int
  is_active :: bool

text \<open>
  \<^verbatim>\<open>BorrowRequest\<close>. An instance that was never saved has \<^verbatim>\<open>pk = None\<close>. Users are
  referred to by their id; datetimes are instants on an integer time line. The column
  \<^verbatim>\<open>notes\<close> is the field \<open>notes_text\<close>.
\<close>

record borrow_request =
  pk :: "nat option"
  user :: nat
  equipment_id :: nat
  quantity :: int
  purpose :: string
  status :: status
  requested_date :: int
  borrow_from :: int
  borrow_until :: int
  approved_by :: "nat option"
  approved_date :: "int option"
  issued_date :: "int option"
  returned_date :: "int option"
  rejection_reason :: string
  notes_text :: string

text \<open>
  The database: the two tables and the sequences that hand out primary keys.
\<close>

record db =
  equipment_table :: "equipment list"
  borrow_requests :: "borrow_request list"
  next_equipment_pk :: nat
  next_request_pk :: nat

subsection \<open>Equipment.save\<close>

text \<open>
  \<^verbatim>\<open>if self.available_quantity > self.total_quantity:
      self.available_quantity = self.total_quantity\<close>
  is the part of \<^verbatim>\<open>save\<close> that runs before the row is written.
\<close>

definition Equipment_pre_save :: "equipment \<Rightarrow> equipment" where
  "Equipment_pre_save self =
     (if available_quantity self > total_quantity self
      then self\<lparr>available_quantity := total_quantity self\<rparr>
      else self)"

text \<open>\<^verbatim>\<open>save\<close> of an instance loaded from the table: the row with its id is rewritten.\<close>

definition Equipment_save :: "db \<Rightarrow> equipment \<Rightarrow> db" where
  "Equipment_save s self =
     (let self' = Equipment_pre_save self
      in s\<lparr>equipment_table :=
             map (\<lambda>row. if eq_id row = eq_id self' then self' else row) (equipment_table s)\<rparr>)"

text \<open>
  \<^verbatim>\<open>save\<close> of a new instance (\<^verbatim>\<open>Equipment.objects.create\<close>): the sequence assigns the id
  and the row is inserted, after the same correction of the counter.
\<close>

definition Equipment_insert :: "db \<Rightarrow> equipment \<Rightarrow> db \<times> equipment" where
  "Equipment_insert s self =
     (let self' = Equipment_pre_save (self\<lparr>eq_id := next_equipment_pk s\<rparr>)
      in (s\<lparr>equipment_table := equipment_table s @ [self'],
             next_equipment_pk := Suc (next_equipment_pk s)\<rparr>, self'))"

subsection \<open>BorrowRequest.save, check_availability, is_overdue\<close>

text \<open>
  \<^verbatim>\<open>Model.save\<close>: an instance without a primary key is inserted under the next key of the
  sequence, an instance with one rewrites its row.
\<close>

definition BorrowRequest_save :: "db \<Rightarrow> borrow_request \<Rightarrow> db \<times> borrow_request" where
  "BorrowRequest_save s self =
     (case pk self of
        None \<Rightarrow>
          (let self' = self\<lparr>pk := Some (next_request_pk s)\<rparr>
           in (s\<lparr>borrow_requests := borrow_requests s @ [self'],
                  next_request_pk := Suc (next_request_pk s)\<rparr>, self'))
      | Some p \<Rightarrow>
          (s\<lparr>borrow_requests :=
                map (\<lambda>row. if pk row = Some p then self else row) (borrow_requests s)\<rparr>, self))"

text \<open>
  The queryset
  \<^verbatim>\<open>BorrowRequest.objects.filter(equipment=e, status__in=['approved', 'issued'],
        borrow_from__lt=until, borrow_until__gt=from)\<close>
  which both \<^verbatim>\<open>check_availability\<close> and the \<^verbatim>\<open>availability\<close> view build.
\<close>

definition overlapping_qs :: "db \<Rightarrow> equipment \<Rightarrow> int \<Rightarrow> int \<Rightarrow> borrow_request list" where
  "overlapping_qs s e from_date until_date =
     filter (\<lambda>req. equipment_id req = eq_id e
                  \<and> status req \<in> set [Approved, Issued]
                  \<and> borrow_from req < until_date
                  \<and> borrow_until req > from_date)
            (borrow_requests s)"

text \<open>
  \<^verbatim>\<open>BorrowRequest.check_availability\<close>; \<open>e\<close> is \<^verbatim>\<open>self.equipment\<close>. The queryset is narrowed
  by \<^verbatim>\<open>.exclude(pk=self.pk)\<close>: for an unsaved instance (\<^verbatim>\<open>pk = None\<close>) no stored row is
  excluded, since every stored row has a key.
\<close>

definition check_availability :: "db \<Rightarrow> equipment \<Rightarrow> borrow_request \<Rightarrow> bool" where
  "check_availability s e self =
     (let overlapping =
            filter (\<lambda>req. pk req \<noteq> pk self)
                   (overlapping_qs s e (borrow_from self) (borrow_until self));
          borrowed_quantity = sum_list (map quantity overlapping);
          available = total_quantity e - borrowed_quantity
      in available \<ge> quantity self)"

definition is_overdue :: "int \<Rightarrow> borrow_request \<Rightarrow> bool" where
  "is_overdue now self = (status self = Issued \<and> now > borrow_until self)"

section \<open>Responses\<close>

text \<open>
  A \<^verbatim>\<open>Response(data, status=...)\<close>. The serialized request and equipment are represented by
  the records themselves. A \<^verbatim>\<open>serializers.ValidationError\<close> is a value of \<open>validation_error\<close>:
  the errors of the field validators, the three messages of
  \<^verbatim>\<open>BorrowRequestSerializer.validate\<close> (the third carries the total quantity it prints) and the
  message of \<^verbatim>\<open>BorrowRequestSerializer.create\<close>.
\<close>

datatype validation_error =
    FieldErrors "string list"
  | ReturnDateNotAfterBorrowDate
  | BorrowDateInThePast
  | QuantityExceedsTotal int
  | EquipmentNotAvailable

datatype payload =
    ErrorMessage string
  | ValidationErrorData validation_error
  | RequestData borrow_request
  | EquipmentData equipment
  | AvailabilityData nat int int string string
  | NotFoundData

record response =
  response_data :: payload
  status_code :: nat

definition HTTP_200_OK :: nat where "HTTP_200_OK = 200"
definition HTTP_201_CREATED :: nat where "HTTP_201_CREATED = 201"
definition HTTP_400_BAD_REQUEST :: nat where "HTTP_400_BAD_REQUEST = 400"
definition HTTP_404_NOT_FOUND :: nat where "HTTP_404_NOT_FOUND = 404"

definition Response :: "payload \<Rightarrow> nat \<Rightarrow> response" where
  "Response d c = \<lparr>response_data = d, status_code = c\<rparr>"

section \<open>Views (views.py)\<close>

subsection \<open>Object lookup\<close>

text \<open>
  \<^verbatim>\<open>self.get_object()\<close> of \<^verbatim>\<open>BorrowRequestViewSet\<close>: the queryset is
  \<^verbatim>\<open>select_related('user', 'equipment', 'approved_by')\<close>, so the request comes joined with
  its equipment row; no row means HTTP 404. The caller is taken to have passed the
  permission class of the action.
\<close>

definition get_object :: "db \<Rightarrow> nat \<Rightarrow> (borrow_request \<times> equipment) option" where
  "get_object s p =
     (case find (\<lambda>r. pk r = Some p) (borrow_requests s) of
        None \<Rightarrow> None
      | Some r \<Rightarrow>
          (case find (\<lambda>e. eq_id e = equipment_id r) (equipment_table s) of
             None \<Rightarrow> None
           | Some e \<Rightarrow> Some (r, e)))"

definition get_equipment :: "db \<Rightarrow> nat \<Rightarrow> equipment option" where
  "get_equipment s p = find (\<lambda>e. eq_id e = p) (equipment_table s)"

definition not_found :: response where
  "not_found = Response NotFoundData HTTP_404_NOT_FOUND"

subsection \<open>EquipmentViewSet.availability\<close>

text \<open>
  \<open>parse\<close> stands for \<^verbatim>\<open>timezone.datetime.fromisoformat\<close>, with \<open>None\<close> for its
  \<^verbatim>\<open>ValueError\<close>. \<open>start\<close> and \<open>end_param\<close> are the two query parameters \<^verbatim>\<open>start\<close> and \<^verbatim>\<open>end\<close>, \<open>None\<close> when absent.
\<close>

definition availability ::
  "(string \<Rightarrow> int option) \<Rightarrow> db \<Rightarrow> nat \<Rightarrow> string option \<Rightarrow> string option \<Rightarrow> response" where
  "availability parse s p start end_param =
     (case get_equipment s p of
        None \<Rightarrow> not_found
      | Some e \<Rightarrow>
          (case (start, end_param) of
             (Some st, Some en) \<Rightarrow>
               (if st = [] \<or> en = []
                then Response (ErrorMessage ''start and end parameters required'')
                       HTTP_400_BAD_REQUEST
                else
                  (case (parse st, parse en) of
                     (Some start_date, Some end_date) \<Rightarrow>
                       (let overlapping = overlapping_qs s e start_date end_date;
                            borrowed_quantity = sum_list (map quantity overlapping);
                            available = total_quantity e - borrowed_quantity
                        in Response
                             (AvailabilityData (eq_id e) (total_quantity e) available st en)
                             HTTP_200_OK)
                   | _ \<Rightarrow> Response (ErrorMessage ''Invalid date format'') HTTP_400_BAD_REQUEST))
           | _ \<Rightarrow> Response (ErrorMessage ''start and end parameters required'')
                   HTTP_400_BAD_REQUEST))"

subsection \<open>BorrowRequestViewSet: approve, reject, issue, return_equipment\<close>

text \<open>
  Each action takes the database, the clock reading \<^verbatim>\<open>timezone.now()\<close>, what it reads of
  the HTTP request, and the key of the borrow request; it returns the database after the
  call and the response.
\<close>

definition approve :: "db \<Rightarrow> int \<Rightarrow> nat \<Rightarrow> nat \<Rightarrow> db \<times> response" where
  "approve s now request_user p =
     (case get_object s p of
        None \<Rightarrow> (s, not_found)
      | Some (borrow_request, e) \<Rightarrow>
          if status borrow_request \<noteq> Pending
          then (s, Response (ErrorMessage ''Only pending requests can be approved'')
                     HTTP_400_BAD_REQUEST)
          else if \<not> check_availability s e borrow_request
          then (s, Response (ErrorMessage ''Equipment not available for requested period'')
                     HTTP_400_BAD_REQUEST)
          else
            (let r1 = borrow_request\<lparr>status := Approved,
                                     approved_by := Some request_user,
                                     approved_date := Some now\<rparr>;
                 (s1, r2) = BorrowRequest_save s r1
             in (s1, Response (RequestData r2) HTTP_200_OK)))"

definition reject :: "db \<Rightarrow> int \<Rightarrow> nat \<Rightarrow> string option \<Rightarrow> nat \<Rightarrow> db \<times> response" where
  "reject s now request_user reason_param p =
     (case get_object s p of
        None \<Rightarrow> (s, not_found)
      | Some (borrow_request, e) \<Rightarrow>
          if status borrow_request \<noteq> Pending
          then (s, Response (ErrorMessage ''Only pending requests can be rejected'')
                     HTTP_400_BAD_REQUEST)
          else
            (let reason = (case reason_param of None \<Rightarrow> [] | Some x \<Rightarrow> x);
                 r1 = borrow_request\<lparr>status := Rejected,
                                     rejection_reason := reason,
                                     approved_by := Some request_user,
                                     approved_date := Some now\<rparr>;
                 (s1, r2) = BorrowRequest_save s r1
             in (s1, Response (RequestData r2) HTTP_200_OK)))"

definition issue :: "db \<Rightarrow> int \<Rightarrow> nat \<Rightarrow> db \<times> response" where
  "issue s now p =
     (case get_object s p of
        None \<Rightarrow> (s, not_found)
      | Some (borrow_request, e) \<Rightarrow>
          if status borrow_request \<noteq> Approved
          then (s, Response (ErrorMessage ''Only approved requests can be issued'')
                     HTTP_400_BAD_REQUEST)
          else if available_quantity e < quantity borrow_request
          then (s, Response (ErrorMessage ''Insufficient equipment quantity'')
                     HTTP_400_BAD_REQUEST)
          else
            (let e1 = e\<lparr>available_quantity := available_quantity e - quantity borrow_request\<rparr>;
                 s1 = Equipment_save s e1;
                 r1 = borrow_request\<lparr>status := Issued, issued_date := Some now\<rparr>;
                 (s2, r2) = BorrowRequest_save s1 r1
             in (s2, Response (RequestData r2) HTTP_200_OK)))"

definition return_equipment :: "db \<Rightarrow> int \<Rightarrow> string option \<Rightarrow> nat \<Rightarrow> db \<times> response" where
  "return_equipment s now notes_param p =
     (case get_object s p of
        None \<Rightarrow> (s, not_found)
      | Some (borrow_request, e) \<Rightarrow>
          if status borrow_request \<notin> set [Issued, Overdue]
          then (s, Response (ErrorMessage ''Only issued requests can be returned'')
                     HTTP_400_BAD_REQUEST)
          else
            (let e1 = e\<lparr>available_quantity := available_quantity e + quantity borrow_request\<rparr>;
                 s1 = Equipment_save s e1;
                 r1 = borrow_request\<lparr>status := Returned, returned_date := Some now\<rparr>;
                 new_notes = (case notes_param of None \<Rightarrow> [] | Some x \<Rightarrow> x);
                 r2 = (if new_notes \<noteq> [] then r1\<lparr>notes_text := new_notes\<rparr> else r1);
                 (s2, r3) = BorrowRequest_save s1 r2
             in (s2, Response (RequestData r3) HTTP_200_OK)))"

section \<open>Serializers (serializers.py)\<close>

subsection \<open>BorrowRequestSerializer\<close>

text \<open>
  The writable fields of a request body; the fields listed in \<^verbatim>\<open>read_only_fields\<close>
  (user, status, the dates, approved_by) are not read from it.
\<close>

record request_payload =
  p_equipment :: nat
  p_quantity :: int
  p_purpose :: string
  p_borrow_from :: int
  p_borrow_until :: int
  p_rejection_reason :: string
  p_notes :: string

text \<open>
  The field validators a \<^verbatim>\<open>ModelSerializer\<close> derives from the model, run before
  \<^verbatim>\<open>validate\<close>: the equipment key must name a row, \<^verbatim>\<open>quantity\<close> carries
  \<^verbatim>\<open>MinValueValidator(1)\<close>, and \<^verbatim>\<open>purpose\<close> is a text field without \<^verbatim>\<open>blank=True\<close>.
\<close>

definition request_field_errors :: "db \<Rightarrow> request_payload \<Rightarrow> string list" where
  "request_field_errors s d =
     (if get_equipment s (p_equipment d) = None then [''equipment: object does not exist''] else [])
     @ (if p_quantity d < 1 then [''quantity: ensure this value is at least 1''] else [])
     @ (if p_purpose d = [] then [''purpose: this field may not be blank''] else [])"

text \<open>\<^verbatim>\<open>BorrowRequestSerializer.validate\<close>; \<open>e\<close> is \<^verbatim>\<open>data['equipment']\<close>.\<close>

definition validate ::
  "int \<Rightarrow> equipment \<Rightarrow> request_payload \<Rightarrow> validation_error + request_payload" where
  "validate now e d =
     (if p_borrow_until d \<le> p_borrow_from d then Inl ReturnDateNotAfterBorrowDate
      else if p_borrow_from d < now then Inl BorrowDateInThePast
      else if p_quantity d > total_quantity e then Inl (QuantityExceedsTotal (total_quantity e))
      else Inr d)"

text \<open>\<^verbatim>\<open>serializer.is_valid()\<close>: the field validators, then \<^verbatim>\<open>validate\<close>.\<close>

definition is_valid ::
  "db \<Rightarrow> int \<Rightarrow> request_payload \<Rightarrow> validation_error + (request_payload \<times> equipment)" where
  "is_valid s now d =
     (if request_field_errors s d \<noteq> [] then Inl (FieldErrors (request_field_errors s d))
      else
        (case get_equipment s (p_equipment d) of
           None \<Rightarrow> Inl (FieldErrors [''equipment: object does not exist''])
         | Some e \<Rightarrow>
             (case validate now e d of
                Inl err \<Rightarrow> Inl err
              | Inr d' \<Rightarrow> Inr (d', e))))"

text \<open>
  \<^verbatim>\<open>BorrowRequestSerializer.create\<close>: the instance is built from the validated data and
  the requesting user, with the model's defaults for the other columns
  (\<^verbatim>\<open>requested_date\<close> is \<^verbatim>\<open>auto_now_add\<close>); it is saved only if
  \<^verbatim>\<open>check_availability\<close> holds.
\<close>

definition BorrowRequestSerializer_create ::
  "db \<Rightarrow> int \<Rightarrow> nat \<Rightarrow> request_payload \<Rightarrow> equipment
     \<Rightarrow> validation_error + (db \<times> borrow_request)" where
  "BorrowRequestSerializer_create s now request_user d e =
     (let request = \<lparr>pk = None, user = request_user, equipment_id = eq_id e,
                      quantity = p_quantity d, purpose = p_purpose d, status = Pending,
                      requested_date = now, borrow_from = p_borrow_from d,
                      borrow_until = p_borrow_until d, approved_by = None,
                      approved_date = None, issued_date = None, returned_date = None,
                      rejection_reason = p_rejection_reason d, notes_text = p_notes d\<rparr>
      in if \<not> check_availability s e request then Inl EquipmentNotAvailable
         else Inr (BorrowRequest_save s request))"

text \<open>
  The \<^verbatim>\<open>create\<close> action of \<^verbatim>\<open>BorrowRequestViewSet\<close> (inherited from \<^verbatim>\<open>ModelViewSet\<close>):
  \<^verbatim>\<open>is_valid(raise_exception=True)\<close>, then \<^verbatim>\<open>serializer.save()\<close>; a
  \<^verbatim>\<open>ValidationError\<close> from either is answered with HTTP 400.
\<close>

definition create_request :: "db \<Rightarrow> int \<Rightarrow> nat \<Rightarrow> request_payload \<Rightarrow> db \<times> response" where
  "create_request s now request_user d =
     (case is_valid s now d of
        Inl err \<Rightarrow> (s, Response (ValidationErrorData err) HTTP_400_BAD_REQUEST)
      | Inr (d', e) \<Rightarrow>
          (case BorrowRequestSerializer_create s now request_user d' e of
             Inl err \<Rightarrow> (s, Response (ValidationErrorData err) HTTP_400_BAD_REQUEST)
           | Inr (s', r) \<Rightarrow> (s', Response (RequestData r) HTTP_201_CREATED)))"

subsection \<open>EquipmentSerializer\<close>

text \<open>
  A request body for an equipment record; the client may send \<^verbatim>\<open>available_quantity\<close>
  or leave it out.
\<close>

record equipment_payload =
  p_name :: string
  p_total_quantity :: int
  p_available_quantity :: "int option"
  p_is_active :: bool

text \<open>
  \<^verbatim>\<open>validated_data\<close>: a dictionary, in which \<^verbatim>\<open>available_quantity\<close> may be absent.
\<close>

record equipment_validated =
  v_name :: string
  v_total_quantity :: int
  v_available_quantity :: "int option"
  v_is_active :: bool

text \<open>
  Validation: \<^verbatim>\<open>name\<close> is a char field without \<^verbatim>\<open>blank=True\<close>, \<^verbatim>\<open>total_quantity\<close> carries
  \<^verbatim>\<open>MinValueValidator(1)\<close>, and \<^verbatim>\<open>read_only_fields = ['available_quantity']\<close> keeps the
  client's value out of \<^verbatim>\<open>validated_data\<close>.
\<close>

definition equipment_is_valid :: "equipment_payload \<Rightarrow> validation_error + equipment_validated" where
  "equipment_is_valid d =
     (let errs = (if p_name d = [] then [''name: this field may not be blank''] else [])
               @ (if p_total_quantity d < 1
                  then [''total_quantity: ensure this value is at least 1''] else [])
      in if errs \<noteq> [] then Inl (FieldErrors errs)
         else Inr \<lparr>v_name = p_name d, v_total_quantity = p_total_quantity d,
                   v_available_quantity = None, v_is_active = p_is_active d\<rparr>)"

text \<open>
  \<^verbatim>\<open>Equipment.objects.create(**validated_data)\<close>: a missing \<^verbatim>\<open>available_quantity\<close> has no
  default and the insert fails on the NOT NULL column.
\<close>

definition Equipment_objects_create :: "db \<Rightarrow> equipment_validated \<Rightarrow> (db \<times> equipment) option" where
  "Equipment_objects_create s v =
     (case v_available_quantity v of
        None \<Rightarrow> None
      | Some a \<Rightarrow>
          Some (Equipment_insert s
                  \<lparr>eq_id = next_equipment_pk s, eq_name = v_name v,
                   total_quantity = v_total_quantity v, available_quantity = a,
                   is_active = v_is_active v\<rparr>))"

text \<open>
  \<^verbatim>\<open>EquipmentSerializer.create\<close>:
  \<^verbatim>\<open>validated_data['available_quantity'] = validated_data['total_quantity']\<close>.
\<close>

definition EquipmentSerializer_create ::
  "db \<Rightarrow> equipment_validated \<Rightarrow> (db \<times> equipment) option" where
  "EquipmentSerializer_create s validated_data =
     Equipment_objects_create s
       (validated_data\<lparr>v_available_quantity := Some (v_total_quantity validated_data)\<rparr>)"

text \<open>The \<^verbatim>\<open>create\<close> action of \<^verbatim>\<open>EquipmentViewSet\<close>; \<open>None\<close> is an unhandled database error.\<close>

definition create_equipment :: "db \<Rightarrow> equipment_payload \<Rightarrow> (db \<times> response) option" where
  "create_equipment s d =
     (case equipment_is_valid d of
        Inl err \<Rightarrow> Some (s, Response (ValidationErrorData err) HTTP_400_BAD_REQUEST)
      | Inr v \<Rightarrow>
          (case EquipmentSerializer_create s v of
             None \<Rightarrow> None
           | Some (s', e) \<Rightarrow> Some (s', Response (EquipmentData e) HTTP_201_CREATED)))"

section \<open>Specification-side notions\<close>

text \<open>
  The overlap test and the overlapping sum in the words of the specification: a stored
  request overlaps a candidate iff \<open>stored.from < candidate.until\<close> and
  \<open>stored.until > candidate.from\<close>; the sum ranges over the stored requests on the equipment
  with status approved or issued that overlap the candidate, the candidate's own key left out.
\<close>

definition spec_overlaps :: "borrow_request \<Rightarrow> borrow_request \<Rightarrow> bool" where
  "spec_overlaps stored candidate =
     (borrow_from stored < borrow_until candidate \<and> borrow_until stored > borrow_from candidate)"

fun spec_overlapping_sum :: "borrow_request list \<Rightarrow> equipment \<Rightarrow> borrow_request \<Rightarrow> int" where
  "spec_overlapping_sum [] e c = 0"
| "spec_overlapping_sum (x # xs) e c =
     (if equipment_id x = eq_id e \<and> (status x = Approved \<or> status x = Issued)
         \<and> spec_overlaps x c \<and> pk x \<noteq> pk c
      then quantity x else 0) + spec_overlapping_sum xs e c"

text \<open>
  The sum of the availability query in the same words, with no request left out.
\<close>

fun spec_query_sum :: "borrow_request list \<Rightarrow> nat \<Rightarrow> int \<Rightarrow> int \<Rightarrow> int" where
  "spec_query_sum [] eid a b = 0"
| "spec_query_sum (x # xs) eid a b =
     (if equipment_id x = eid \<and> (status x = Approved \<or> status x = Issued)
         \<and> borrow_from x < b \<and> borrow_until x > a
      then quantity x else 0) + spec_query_sum xs eid a b"

section \<open>Sample data\<close>

text \<open>
  One projector with five units, all on hand, and one request for two of them over
  \<open>[10, 20)\<close>, stored in a chosen status.
\<close>

definition demo_equipment :: equipment where
  "demo_equipment =
     \<lparr>eq_id = 3, eq_name = ''Projector'', total_quantity = 5, available_quantity = 5,
      is_active = True\<rparr>"

definition demo_request :: borrow_request where
  "demo_request =
     \<lparr>pk = Some 4, user = 7, equipment_id = 3, quantity = 2, purpose = ''Lecture'',
      status = Pending, requested_date = 0, borrow_from = 10, borrow_until = 20,
      approved_by = None, approved_date = None, issued_date = None,
      returned_date = None, rejection_reason = [], notes_text = ''abc''\<rparr>"

definition demo_db :: "status \<Rightarrow> db" where
  "demo_db st =
     \<lparr>equipment_table = [demo_equipment],
      borrow_requests = [demo_request\<lparr>status := st\<rparr>],
      next_equipment_pk = 4, next_request_pk = 5\<rparr>"

text \<open>
  A candidate for all five units over \<open>[20, 30)\<close>, which starts when the stored request ends.
\<close>

definition demo_candidate :: borrow_request where
  "demo_candidate =
     \<lparr>pk = None, user = 8, equipment_id = 3, quantity = 5, purpose = ''Workshop'',
      status = Pending, requested_date = 2, borrow_from = 20, borrow_until = 30,
      approved_by = None, approved_date = None, issued_date = None,
      returned_date = None, rejection_reason = [], notes_text = []\<rparr>"

text \<open>Scenario D: six units asked of an equipment with five.\<close>

definition scenario_d_payload :: request_payload where
  "scenario_d_payload =
     \<lparr>p_equipment = 3, p_quantity = 6, p_purpose = ''Field trip'', p_borrow_from = 12,
      p_borrow_until = 18, p_rejection_reason = [], p_notes = []\<rparr>"

text \<open>A request body for a new equipment record.\<close>

definition demo_payload :: equipment_payload where
  "demo_payload = \<lparr>p_name = ''Tripod'', p_total_quantity = 4,
                    p_available_quantity = None, p_is_active = True\<rparr>"

text \<open>
  Two approved requests of three units each, back to back over \<open>[0, 20)\<close> and \<open>[20, 40)\<close>,
  on the projector with five units; and a parser that knows two date strings.
\<close>

definition back_to_back_db :: db where
  "back_to_back_db =
     \<lparr>equipment_table = [demo_equipment],
      borrow_requests =
        [demo_request\<lparr>status := Approved, quantity := 3, borrow_from := 0, borrow_until := 20\<rparr>,
         demo_request\<lparr>pk := Some 5, status := Approved, quantity := 3, borrow_from := 20,
                       borrow_until := 40\<rparr>],
      next_equipment_pk = 4, next_request_pk = 6\<rparr>"

definition demo_parse :: "string \<Rightarrow> int option" where
  "demo_parse x = (if x = ''T10'' then Some 10 else if x = ''T30'' then Some 30 else None)"

section \<open>Sequences of operations\<close>

text \<open>
  The five operations on borrow requests, each with the arguments of its call: the clock
  reading, the acting user, the body or parameter it reads, and the key of the request.
\<close>

datatype operation =
    Create int nat request_payload
  | Approve int nat nat
  | Reject int nat "string option" nat
  | Issue int nat
  | Return int "string option" nat

text \<open>One call, keeping the database it leaves; and a sequence of calls, one after another.\<close>

fun step :: "db \<Rightarrow> operation \<Rightarrow> db" where
  "step s (Create now request_user d) = fst (create_request s now request_user d)"
| "step s (Approve now request_user p) = fst (approve s now request_user p)"
| "step s (Reject now request_user reason p) = fst (reject s now request_user reason p)"
| "step s (Issue now p) = fst (issue s now p)"
| "step s (Return now notes_param p) = fst (return_equipment s now notes_param p)"

definition run :: "db \<Rightarrow> operation list \<Rightarrow> db" where
  "run s ops = foldl step s ops"

section \<open>Transitions\<close>

text \<open>
  What a call can do to the database, abstracted from the views: nothing; insert a new
  pending request; or rewrite one stored request, keeping its key, equipment, quantity and
  interval (\<open>same_booking\<close>), along one edge of the life cycle, together with the write of
  the equipment counter that \<^verbatim>\<open>issue\<close> and \<^verbatim>\<open>return_equipment\<close> make.
\<close>

definition update_request :: "db \<Rightarrow> nat \<Rightarrow> borrow_request \<Rightarrow> db" where
  "update_request s p r' =
     s\<lparr>borrow_requests := map (\<lambda>row. if pk row = Some p then r' else row) (borrow_requests s)\<rparr>"

definition same_booking :: "borrow_request \<Rightarrow> borrow_request \<Rightarrow> bool" where
  "same_booking r r' =
     (pk r' = pk r \<and> equipment_id r' = equipment_id r \<and> quantity r' = quantity r
      \<and> borrow_from r' = borrow_from r \<and> borrow_until r' = borrow_until r)"

inductive transition :: "db \<Rightarrow> db \<Rightarrow> bool" where
  t_none: "transition s s"
| t_create:
    "\<lbrakk>pk r' = None; status r' = Pending; 1 \<le> quantity r'\<rbrakk>
     \<Longrightarrow> transition s (fst (BorrowRequest_save s r'))"
| t_approve:
    "\<lbrakk>get_object s p = Some (r, e); status r = Pending; check_availability s e r;
      same_booking r r'; status r' = Approved\<rbrakk>
     \<Longrightarrow> transition s (update_request s p r')"
| t_reject:
    "\<lbrakk>get_object s p = Some (r, e); status r = Pending; same_booking r r';
      status r' = Rejected\<rbrakk>
     \<Longrightarrow> transition s (update_request s p r')"
| t_issue:
    "\<lbrakk>get_object s p = Some (r, e); status r = Approved;
      quantity r \<le> available_quantity e; same_booking r r'; status r' = Issued\<rbrakk>
     \<Longrightarrow> transition s
           (update_request
              (Equipment_save s (e\<lparr>available_quantity := available_quantity e - quantity r\<rparr>))
              p r')"
| t_return:
    "\<lbrakk>get_object s p = Some (r, e); status r = Issued \<or> status r = Overdue;
      same_booking r r'; status r' = Returned\<rbrakk>
     \<Longrightarrow> transition s
           (update_request
              (Equipment_save s (e\<lparr>available_quantity := available_quantity e + quantity r\<rparr>))
              p r')"

section \<open>Invariants\<close>

text \<open>
  The data model's constraints on a stored state: every counter lies between zero and
  the total quantity; every stored request asks for at least one unit
  (\<^verbatim>\<open>MinValueValidator(1)\<close>); primary keys are unique and below the sequence's next value.
\<close>

definition counter_in_bounds :: "db \<Rightarrow> bool" where
  "counter_in_bounds s =
     list_all (\<lambda>e. 0 \<le> available_quantity e \<and> available_quantity e \<le> total_quantity e)
       (equipment_table s)"

definition quantities_valid :: "db \<Rightarrow> bool" where
  "quantities_valid s = list_all (\<lambda>r. 1 \<le> quantity r) (borrow_requests s)"

definition keys_valid :: "db \<Rightarrow> bool" where
  "keys_valid s =
     (distinct (map eq_id (equipment_table s))
      \<and> distinct (map pk (borrow_requests s))
      \<and> list_all (\<lambda>r. case pk r of None \<Rightarrow> True | Some k \<Rightarrow> k < next_request_pk s)
           (borrow_requests s))"

text \<open>
  The capacity invariant: for every equipment item and every instant \<open>t\<close>, the quantities of
  the approved or issued requests on it whose interval \<open>[borrow_from, borrow_until)\<close> covers
  \<open>t\<close> sum to at most the total quantity.
\<close>

definition active_at :: "nat \<Rightarrow> int \<Rightarrow> borrow_request \<Rightarrow> bool" where
  "active_at eid t r =
     (equipment_id r = eid \<and> (status r = Approved \<or> status r = Issued)
      \<and> borrow_from r \<le> t \<and> t < borrow_until r)"

definition covering_sum :: "borrow_request list \<Rightarrow> nat \<Rightarrow> int \<Rightarrow> int" where
  "covering_sum rows eid t = sum_list (map quantity (filter (active_at eid t) rows))"

definition capacity_invariant :: "db \<Rightarrow> bool" where
  "capacity_invariant s =
     (\<forall>e \<in> set (equipment_table s). \<forall>t.
        covering_sum (borrow_requests s) (eq_id e) t \<le> total_quantity e)"

text \<open>What one stored request adds to the sum at an instant.\<close>

definition contribution :: "nat \<Rightarrow> int \<Rightarrow> borrow_request \<Rightarrow> int" where
  "contribution eid t r = (if active_at eid t r then quantity r else 0)"

section \<open>The round trip of one request\<close>

text \<open>
  An operation that issues or returns a request other than the one with key \<open>p\<close>.
\<close>

definition other_issue_or_return :: "nat \<Rightarrow> operation \<Rightarrow> bool" where
  "other_issue_or_return p op =
     (case op of
        Issue now p' \<Rightarrow> p' \<noteq> p
      | Return now notes_param p' \<Rightarrow> p' \<noteq> p
      | _ \<Rightarrow> False)"

text \<open>
  What the database holds about request \<open>p\<close> and its equipment, relative to the request
  \<open>r\<close> and the equipment \<open>e\<close> it started from: the same equipment with the same total
  quantity, the same requested quantity, the status \<open>st\<close> and the counter \<open>a\<close>.
\<close>

definition booking_state ::
  "nat \<Rightarrow> equipment \<Rightarrow> borrow_request \<Rightarrow> status \<Rightarrow> int \<Rightarrow> db \<Rightarrow> bool" where
  "booking_state p e r st a s =
     (case get_object s p of
        None \<Rightarrow> False
      | Some (r', e') \<Rightarrow>
          eq_id e' = eq_id e \<and> total_quantity e' = total_quantity e
          \<and> quantity r' = quantity r \<and> status r' = st \<and> available_quantity e' = a)"

text \<open>
  The projector with four of its five units on hand, request 4 approved for two units and
  request 5 issued for one.
\<close>

definition round_trip_db :: db where
  "round_trip_db =
     \<lparr>equipment_table = [demo_equipment\<lparr>available_quantity := 4\<rparr>],
      borrow_requests =
        [demo_request\<lparr>status := Approved\<rparr>,
         demo_request\<lparr>pk := Some 5, status := Issued, quantity := 1\<rparr>],
      next_equipment_pk = 4, next_request_pk = 6\<rparr>"

section \<open>Basic facts about lookup and save\<close>

lemma find_Some_prop: "find P xs = Some y \<Longrightarrow> P y \<and> y \<in> set xs"
  by (induction xs) (auto split: if_splits)

lemma find_map_replace:
  "find (\<lambda>x. k x = a) xs = Some y \<Longrightarrow> k y' = a \<Longrightarrow>
   find (\<lambda>x. k x = a) (map (\<lambda>x. if k x = a then y' else x) xs) = Some y'"
  by (induction xs) (auto split: if_splits)

lemma get_objectD:
  "get_object s p = Some (r, e) \<Longrightarrow>
     find (\<lambda>r. pk r = Some p) (borrow_requests s) = Some r
   \<and> find (\<lambda>x. eq_id x = equipment_id r) (equipment_table s) = Some e
   \<and> pk r = Some p \<and> eq_id e = equipment_id r
   \<and> r \<in> set (borrow_requests s) \<and> e \<in> set (equipment_table s)"
  by (auto simp: get_object_def split: option.splits dest: find_Some_prop)

lemma Equipment_pre_save_id [simp]: "eq_id (Equipment_pre_save e) = eq_id e"
  by (simp add: Equipment_pre_save_def)

lemma Equipment_pre_save_total [simp]: "total_quantity (Equipment_pre_save e) = total_quantity e"
  by (simp add: Equipment_pre_save_def)

lemma Equipment_pre_save_available:
  "available_quantity (Equipment_pre_save e) = min (available_quantity e) (total_quantity e)"
  by (simp add: Equipment_pre_save_def)

lemma borrow_requests_Equipment_save [simp]:
  "borrow_requests (Equipment_save s e) = borrow_requests s"
  by (simp add: Equipment_save_def Let_def)

lemma equipment_table_BorrowRequest_save [simp]:
  "equipment_table (fst (BorrowRequest_save s r)) = equipment_table s"
  by (simp add: BorrowRequest_save_def Let_def split: option.splits)

lemma get_object_after_saves:
  assumes "get_object s p = Some (r, e)" "pk r' = pk r" "equipment_id r' = equipment_id r"
    "eq_id e' = eq_id e"
  shows "get_object (fst (BorrowRequest_save (Equipment_save s e') r')) p
         = Some (r', Equipment_pre_save e')"
proof -
  note D = get_objectD [OF assms(1)]
  have pk': "pk r' = Some p" using D assms(2) by simp
  have 1: "find (\<lambda>x. pk x = Some p)
             (borrow_requests (fst (BorrowRequest_save (Equipment_save s e') r'))) = Some r'"
    using find_map_replace [of pk "Some p" "borrow_requests s" r r'] D pk'
    by (simp add: BorrowRequest_save_def)
  have 2: "find (\<lambda>x. eq_id x = equipment_id r')
             (equipment_table (fst (BorrowRequest_save (Equipment_save s e') r')))
           = Some (Equipment_pre_save e')"
    using find_map_replace [of eq_id "equipment_id r" "equipment_table s" e "Equipment_pre_save e'"]
      D assms(3,4)
    by (simp add: Equipment_save_def Let_def)
  show ?thesis unfolding get_object_def using 1 2 by simp
qed

lemma get_object_after_request_save:
  assumes "get_object s p = Some (r, e)" "pk r' = pk r" "equipment_id r' = equipment_id r"
  shows "get_object (fst (BorrowRequest_save s r')) p = Some (r', e)"
proof -
  note D = get_objectD [OF assms(1)]
  have pk': "pk r' = Some p" using D assms(2) by simp
  have 1: "find (\<lambda>x. pk x = Some p)
             (borrow_requests (fst (BorrowRequest_save s r'))) = Some r'"
    using find_map_replace [of pk "Some p" "borrow_requests s" r r'] D pk'
    by (simp add: BorrowRequest_save_def)
  show ?thesis unfolding get_object_def using 1 D assms(3) by simp
qed

lemma demo_get_object:
  "get_object (demo_db st) 4 = Some (demo_request\<lparr>status := st\<rparr>, demo_equipment)"
  by (simp add: get_object_def demo_db_def demo_request_def demo_equipment_def)

lemma get_equipment_Some:
  "get_equipment s k = Some e \<Longrightarrow> eq_id e = k \<and> e \<in> set (equipment_table s)"
  by (auto simp: get_equipment_def dest: find_Some_prop)

lemma get_object_equipment:
  "get_object s p = Some (r, e) \<Longrightarrow> get_equipment s (eq_id e) = Some e"
  by (auto simp: get_equipment_def dest!: get_objectD)

lemma demo_get_equipment: "get_equipment (demo_db st) 3 = Some demo_equipment"
  by (simp add: get_equipment_def demo_db_def demo_equipment_def)

section \<open>The availability check\<close>

lemma overlapping_sum_filter:
  "sum_list (map quantity (filter (\<lambda>req. pk req \<noteq> pk c)
      (filter (\<lambda>req. equipment_id req = eq_id e \<and> status req \<in> set [Approved, Issued]
                 \<and> borrow_from req < borrow_until c \<and> borrow_until req > borrow_from c) xs)))
   = spec_overlapping_sum xs e c"
  by (induction xs) (auto simp: spec_overlaps_def)

lemma check_availability_spec_sum:
  "check_availability s e c \<longleftrightarrow>
      total_quantity e - spec_overlapping_sum (borrow_requests s) e c \<ge> quantity c"
  unfolding check_availability_def overlapping_qs_def Let_def overlapping_sum_filter ..

text \<open>
  Claim C2. \<^verbatim>\<open>check_availability\<close> holds exactly when the total quantity minus the sum of
  the quantities of the stored approved or issued requests on the equipment that overlap
  the candidate interval, the candidate's own key excluded, is at least the candidate's
  quantity; a stored request whose interval only touches the candidate's at an endpoint
  does not overlap it and is not in the queryset that is summed.
\<close>

theorem check_availability_capacity:
  "(check_availability s e c \<longleftrightarrow>
      total_quantity e - spec_overlapping_sum (borrow_requests s) e c \<ge> quantity c)
   \<and> (\<forall>x. borrow_until x = borrow_from c \<or> borrow_until c = borrow_from x \<longrightarrow>
          \<not> spec_overlaps x c
          \<and> x \<notin> set (overlapping_qs s e (borrow_from c) (borrow_until c)))"
proof (intro conjI allI impI)
  show "check_availability s e c \<longleftrightarrow>
      total_quantity e - spec_overlapping_sum (borrow_requests s) e c \<ge> quantity c"
    by (rule check_availability_spec_sum)
next
  fix x :: borrow_request
  assume "borrow_until x = borrow_from c \<or> borrow_until c = borrow_from x"
  then show "\<not> spec_overlaps x c" by (auto simp: spec_overlaps_def)
next
  fix x :: borrow_request
  assume "borrow_until x = borrow_from c \<or> borrow_until c = borrow_from x"
  then show "x \<notin> set (overlapping_qs s e (borrow_from c) (borrow_until c))"
    by (auto simp: overlapping_qs_def)
qed

theorem check_availability_capacity_witness:
  "borrow_until (demo_request\<lparr>status := Approved\<rparr>) = borrow_from demo_candidate
   \<and> check_availability (demo_db Approved) demo_equipment demo_candidate
   \<and> demo_request\<lparr>status := Approved\<rparr>
        \<notin> set (overlapping_qs (demo_db Approved) demo_equipment 20 30)"
  using check_availability_capacity [of "demo_db Approved" demo_equipment demo_candidate]
  by (simp add: demo_db_def demo_request_def demo_candidate_def demo_equipment_def
      spec_overlaps_def)

section \<open>issue\<close>

lemma issue_success:
  assumes "get_object s p = Some (r, e)" "status r = Approved"
    "quantity r \<le> available_quantity e"
  shows "issue s now p =
     (fst (BorrowRequest_save
             (Equipment_save s (e\<lparr>available_quantity := available_quantity e - quantity r\<rparr>))
             (r\<lparr>status := Issued, issued_date := Some now\<rparr>)),
      Response (RequestData (r\<lparr>status := Issued, issued_date := Some now\<rparr>)) HTTP_200_OK)"
  using assms get_objectD [OF assms(1)]
  by (simp add: issue_def Let_def BorrowRequest_save_def split: prod.splits)

lemma issue_failure:
  assumes "get_object s p = Some (r, e)"
    "\<not> (status r = Approved \<and> quantity r \<le> available_quantity e)"
  shows "fst (issue s now p) = s \<and> status_code (snd (issue s now p)) = HTTP_400_BAD_REQUEST"
  using assms by (auto simp: issue_def Response_def)

text \<open>
  Claim C3. For a stored request with its equipment, in a state that respects the data
  model (the counter not above the total, the quantity at least 1): \<^verbatim>\<open>issue\<close> answers
  HTTP 200 exactly when the request is approved and the counter is at least the quantity;
  then the stored equipment has its counter lowered by exactly the quantity and the stored
  request is issued with the issue time stamped, every other field as before; otherwise
  the answer is HTTP 400 and the database is unchanged.
\<close>

theorem issue_contract:
  assumes "get_object s p = Some (r, e)"
    and "available_quantity e \<le> total_quantity e" and "1 \<le> quantity r"
  shows "(status_code (snd (issue s now p)) = HTTP_200_OK
            \<longleftrightarrow> status r = Approved \<and> available_quantity e \<ge> quantity r)
       \<and> (status r = Approved \<and> available_quantity e \<ge> quantity r \<longrightarrow>
            get_object (fst (issue s now p)) p
              = Some (r\<lparr>status := Issued, issued_date := Some now\<rparr>,
                      e\<lparr>available_quantity := available_quantity e - quantity r\<rparr>))
       \<and> (\<not> (status r = Approved \<and> available_quantity e \<ge> quantity r) \<longrightarrow>
            fst (issue s now p) = s
          \<and> status_code (snd (issue s now p)) = HTTP_400_BAD_REQUEST)"
proof (cases "status r = Approved \<and> available_quantity e \<ge> quantity r")
  case True
  let ?e1 = "e\<lparr>available_quantity := available_quantity e - quantity r\<rparr>"
  let ?r1 = "r\<lparr>status := Issued, issued_date := Some now\<rparr>"
  have eq: "issue s now p =
     (fst (BorrowRequest_save (Equipment_save s ?e1) ?r1), Response (RequestData ?r1) HTTP_200_OK)"
    using issue_success [OF assms(1)] True by simp
  have "Equipment_pre_save ?e1 = ?e1"
    using assms(2,3) by (simp add: Equipment_pre_save_def)
  then have "get_object (fst (issue s now p)) p = Some (?r1, ?e1)"
    using get_object_after_saves [OF assms(1), of ?r1 ?e1] eq by simp
  then show ?thesis using True eq by (simp add: Response_def)
next
  case False
  then show ?thesis
    using issue_failure [OF assms(1) False, of now]
    by (auto simp: HTTP_200_OK_def HTTP_400_BAD_REQUEST_def)
qed

theorem issue_contract_witness:
  "status_code (snd (issue (demo_db Approved) 12 4)) = HTTP_200_OK
   \<and> map_option (\<lambda>(r, e). (status r, issued_date r, available_quantity e))
        (get_object (fst (issue (demo_db Approved) 12 4)) 4) = Some (Issued, Some 12, 3)"
  using issue_contract [OF demo_get_object, of Approved 12]
  by (simp add: demo_request_def demo_equipment_def)

section \<open>return\_equipment\<close>

lemma return_success:
  assumes "get_object s p = Some (r, e)" "status r = Issued \<or> status r = Overdue"
  shows "return_equipment s now notes_param p =
     (fst (BorrowRequest_save
             (Equipment_save s (e\<lparr>available_quantity := available_quantity e + quantity r\<rparr>))
             (r\<lparr>status := Returned, returned_date := Some now,
                notes_text := (case notes_param of None \<Rightarrow> notes_text r
                               | Some x \<Rightarrow> if x \<noteq> [] then x else notes_text r)\<rparr>)),
      Response (RequestData
             (r\<lparr>status := Returned, returned_date := Some now,
                notes_text := (case notes_param of None \<Rightarrow> notes_text r
                               | Some x \<Rightarrow> if x \<noteq> [] then x else notes_text r)\<rparr>))
         HTTP_200_OK)"
proof -
  have st: "\<not> status r \<notin> set [Issued, Overdue]" using assms(2) by auto
  have pk: "pk r = Some p" using get_objectD [OF assms(1)] by simp
  have save: "BorrowRequest_save s' r' = (fst (BorrowRequest_save s' r'), r')"
    if "pk r' = Some p" for s' r'
    using that by (simp add: BorrowRequest_save_def)
  show ?thesis
  proof (cases notes_param)
    case None
    show ?thesis
      unfolding return_equipment_def assms(1) None
      by (simp only: option.case prod.case st if_False Let_def simp_thms if_True)
         (subst save, simp add: pk, simp)
  next
    case (Some x)
    show ?thesis
    proof (cases "x = []")
      case True
      show ?thesis
        unfolding return_equipment_def assms(1) Some True
        by (simp only: option.case prod.case st if_False Let_def simp_thms if_True)
           (subst save, simp add: pk, simp)
    next
      case False
      show ?thesis
        unfolding return_equipment_def assms(1) Some
        by (simp only: option.case prod.case st if_False Let_def simp_thms if_True False)
           (subst save, simp add: pk, simp add: False)
    qed
  qed
qed

lemma return_failure:
  assumes "get_object s p = Some (r, e)" "\<not> (status r = Issued \<or> status r = Overdue)"
  shows "return_equipment s now notes_param p =
           (s, Response (ErrorMessage ''Only issued requests can be returned'')
                 HTTP_400_BAD_REQUEST)"
  using assms by (auto simp: return_equipment_def)

text \<open>
  Claim C4, as the code has it. \<^verbatim>\<open>return_equipment\<close> answers HTTP 200 exactly when the
  request is issued or overdue; then the counter is raised by the quantity and cut at the
  total, the request is returned with the return time stamped, and supplied notes that are
  not empty replace the request's notes (empty or absent notes leave them as they were);
  otherwise the answer is HTTP 400 and the database is unchanged.
\<close>

theorem return_equipment_contract:
  assumes "get_object s p = Some (r, e)"
  shows "(status_code (snd (return_equipment s now notes_param p)) = HTTP_200_OK
            \<longleftrightarrow> status r = Issued \<or> status r = Overdue)
       \<and> (status r = Issued \<or> status r = Overdue \<longrightarrow>
            get_object (fst (return_equipment s now notes_param p)) p
              = Some (r\<lparr>status := Returned, returned_date := Some now,
                        notes_text := (case notes_param of None \<Rightarrow> notes_text r
                                       | Some x \<Rightarrow> if x \<noteq> [] then x else notes_text r)\<rparr>,
                      e\<lparr>available_quantity :=
                           min (available_quantity e + quantity r) (total_quantity e)\<rparr>))
       \<and> (\<not> (status r = Issued \<or> status r = Overdue) \<longrightarrow>
            return_equipment s now notes_param p =
              (s, Response (ErrorMessage ''Only issued requests can be returned'')
                    HTTP_400_BAD_REQUEST))"
proof (cases "status r = Issued \<or> status r = Overdue")
  case True
  let ?e1 = "e\<lparr>available_quantity := available_quantity e + quantity r\<rparr>"
  let ?r1 = "r\<lparr>status := Returned, returned_date := Some now,
                notes_text := (case notes_param of None \<Rightarrow> notes_text r
                               | Some x \<Rightarrow> if x \<noteq> [] then x else notes_text r)\<rparr>"
  have eq: "return_equipment s now notes_param p =
     (fst (BorrowRequest_save (Equipment_save s ?e1) ?r1), Response (RequestData ?r1) HTTP_200_OK)"
    using return_success [OF assms(1) True] by simp
  have "Equipment_pre_save ?e1
          = e\<lparr>available_quantity := min (available_quantity e + quantity r) (total_quantity e)\<rparr>"
    by (simp add: Equipment_pre_save_def min_def)
  then have "get_object (fst (return_equipment s now notes_param p)) p
      = Some (?r1, e\<lparr>available_quantity :=
                         min (available_quantity e + quantity r) (total_quantity e)\<rparr>)"
    using get_object_after_saves [OF assms(1), of ?r1 ?e1] eq by simp
  then show ?thesis using True eq by (simp add: Response_def)
next
  case False
  then show ?thesis
    using return_failure [OF assms(1) False, of now notes_param]
    by (auto simp: HTTP_200_OK_def HTTP_400_BAD_REQUEST_def Response_def)
qed

theorem return_equipment_contract_witness:
  "status_code (snd (return_equipment (demo_db Issued) 30 (Some ''def'') 4)) = HTTP_200_OK
   \<and> map_option (\<lambda>(r, e). (status r, returned_date r, notes_text r, available_quantity e))
        (get_object (fst (return_equipment (demo_db Issued) 30 (Some ''def'') 4)) 4)
      = Some (Returned, Some 30, ''def'', 5)"
  using return_equipment_contract [OF demo_get_object, of Issued 30 "Some ''def''"]
  by (simp add: demo_request_def demo_equipment_def)

text \<open>
  The supplied notes are not appended: a request whose notes are \<open>abc\<close>, returned with
  the notes \<open>def\<close>, is stored with the notes \<open>def\<close>.
\<close>

theorem return_equipment_notes_not_appended:
  "map notes_text (borrow_requests (demo_db Issued)) = [''abc'']
   \<and> status_code (snd (return_equipment (demo_db Issued) 30 (Some ''def'') 4)) = HTTP_200_OK
   \<and> map notes_text (borrow_requests (fst (return_equipment (demo_db Issued) 30 (Some ''def'') 4)))
        = [''def'']
   \<and> ''def'' \<noteq> ''abc'' @ ''def''"
  by (simp add: return_equipment_def get_object_def Let_def Equipment_save_def
        Equipment_pre_save_def BorrowRequest_save_def demo_db_def demo_request_def
        demo_equipment_def Response_def)

section \<open>approve on a request that is not pending\<close>

text \<open>
  Claim C5, as the code has it. For a stored request in any status other than pending,
  \<^verbatim>\<open>approve\<close> answers HTTP 400 with the message that only pending requests can be
  approved, and returns the database unchanged.
\<close>

theorem approve_non_pending:
  assumes "get_object s p = Some (r, e)" and "status r \<noteq> Pending"
  shows "approve s now request_user p =
           (s, Response (ErrorMessage ''Only pending requests can be approved'')
                 HTTP_400_BAD_REQUEST)
       \<and> status_code (snd (approve s now request_user p)) = 400"
  using assms by (simp add: approve_def Response_def HTTP_400_BAD_REQUEST_def)

theorem approve_non_pending_witness:
  "Approved \<noteq> Pending
   \<and> approve (demo_db Approved) 5 3 4 =
       (demo_db Approved, Response (ErrorMessage ''Only pending requests can be approved'')
                 HTTP_400_BAD_REQUEST)"
  using approve_non_pending [OF demo_get_object, of Approved 5 3] by simp

text \<open>The status of that answer is not 409.\<close>

theorem approve_non_pending_not_409:
  "status_code (snd (approve (demo_db Approved) 5 3 4)) \<noteq> 409"
  by (simp add: approve_def demo_get_object Response_def HTTP_400_BAD_REQUEST_def)

section \<open>Validation on creation\<close>

lemma validate_fails:
  assumes "p_quantity d > total_quantity e \<or> p_borrow_until d \<le> p_borrow_from d
           \<or> p_borrow_from d < now"
  shows "\<exists>err. validate now e d = Inl err \<and> err \<noteq> EquipmentNotAvailable"
  using assms by (auto simp: validate_def)

lemma is_valid_requests_irrelevant:
  "is_valid (s\<lparr>borrow_requests := rows\<rparr>) now d = is_valid s now d"
  by (simp add: is_valid_def request_field_errors_def get_equipment_def)

lemma scenario_d_unavailable:
  "BorrowRequestSerializer_create (demo_db Approved) 11 9 scenario_d_payload demo_equipment
     = Inl EquipmentNotAvailable"
  by (simp add: BorrowRequestSerializer_create_def check_availability_def overlapping_qs_def
      demo_db_def demo_request_def demo_equipment_def scenario_d_payload_def Let_def)

text \<open>
  Claim C6. When the requested quantity exceeds the equipment's total quantity, or the
  return date is not after the borrow date, or the borrow date is before now, creation
  answers HTTP 400 with the validation error that \<^verbatim>\<open>is_valid\<close> raises, which is not the
  error of the availability check, and the database is unchanged; the answer is the same
  whatever the table of stored requests holds, so the availability check has no part in it.
\<close>

theorem create_request_validation_first:
  assumes "get_equipment s (p_equipment d) = Some e"
    and "p_quantity d > total_quantity e \<or> p_borrow_until d \<le> p_borrow_from d
         \<or> p_borrow_from d < now"
  shows "\<exists>err. is_valid s now d = Inl err \<and> err \<noteq> EquipmentNotAvailable
           \<and> create_request s now request_user d
               = (s, Response (ValidationErrorData err) HTTP_400_BAD_REQUEST)
           \<and> (\<forall>rows. create_request (s\<lparr>borrow_requests := rows\<rparr>) now request_user d
               = (s\<lparr>borrow_requests := rows\<rparr>,
                  Response (ValidationErrorData err) HTTP_400_BAD_REQUEST))"
proof -
  obtain err where v: "validate now e d = Inl err" "err \<noteq> EquipmentNotAvailable"
    using validate_fails [OF assms(2)] by blast
  define err' where "err' = (if request_field_errors s d \<noteq> []
                              then FieldErrors (request_field_errors s d) else err)"
  have 1: "is_valid s now d = Inl err'"
    using assms(1) v by (simp add: is_valid_def err'_def)
  have 2: "err' \<noteq> EquipmentNotAvailable" using v by (simp add: err'_def)
  have 3: "create_request s' now request_user d
             = (s', Response (ValidationErrorData err') HTTP_400_BAD_REQUEST)"
    if "is_valid s' now d = Inl err'" for s'
    using that by (simp add: create_request_def)
  show ?thesis
    using 1 2 3 [OF 1] 3 [of "s\<lparr>borrow_requests := rows\<rparr>" for rows]
      is_valid_requests_irrelevant [where s = s and now = now and d = d]
    by auto
qed

theorem create_request_validation_first_witness:
  "p_quantity scenario_d_payload > total_quantity demo_equipment
   \<and> BorrowRequestSerializer_create (demo_db Approved) 11 9 scenario_d_payload demo_equipment
       = Inl EquipmentNotAvailable
   \<and> create_request (demo_db Approved) 11 9 scenario_d_payload
       = (demo_db Approved, Response (ValidationErrorData (QuantityExceedsTotal 5))
            HTTP_400_BAD_REQUEST)"
proof -
  have e: "get_equipment (demo_db Approved) (p_equipment scenario_d_payload) = Some demo_equipment"
    using demo_get_equipment by (simp add: scenario_d_payload_def)
  have q: "p_quantity scenario_d_payload > total_quantity demo_equipment"
    by (simp add: scenario_d_payload_def demo_equipment_def)
  have v: "is_valid (demo_db Approved) 11 scenario_d_payload = Inl (QuantityExceedsTotal 5)"
    using e by (simp add: is_valid_def request_field_errors_def validate_def
        scenario_d_payload_def demo_equipment_def)
  from create_request_validation_first [OF e, of 11 9] q v scenario_d_unavailable show ?thesis by auto
qed

section \<open>Creating equipment\<close>

lemma create_equipment_valid:
  assumes "equipment_is_valid d = Inr v"
  shows "create_equipment s d =
     Some (s\<lparr>equipment_table := equipment_table s
                @ [\<lparr>eq_id = next_equipment_pk s, eq_name = p_name d,
                    total_quantity = p_total_quantity d,
                    available_quantity = p_total_quantity d, is_active = p_is_active d\<rparr>],
              next_equipment_pk := Suc (next_equipment_pk s)\<rparr>,
           Response (EquipmentData
                 \<lparr>eq_id = next_equipment_pk s, eq_name = p_name d,
                  total_quantity = p_total_quantity d,
                  available_quantity = p_total_quantity d, is_active = p_is_active d\<rparr>)
             HTTP_201_CREATED)"
  using assms
  by (auto simp: create_equipment_def equipment_is_valid_def Let_def
      EquipmentSerializer_create_def Equipment_objects_create_def Equipment_insert_def
      Equipment_pre_save_def split: if_splits)

text \<open>
  Claim C9. Creating an equipment record ignores any \<^verbatim>\<open>available_quantity\<close> the client
  sends: the outcome is the same whatever that value is; and every call either stores one
  new record whose counter equals the supplied total quantity, answering HTTP 201, or
  answers HTTP 400 and stores nothing.
\<close>

theorem create_equipment_available_is_total:
  "create_equipment s (d\<lparr>p_available_quantity := client_value\<rparr>) = create_equipment s d
   \<and> (case create_equipment s d of
        None \<Rightarrow> False
      | Some (s', resp) \<Rightarrow>
          (case response_data resp of
             EquipmentData e \<Rightarrow>
               status_code resp = HTTP_201_CREATED
               \<and> equipment_table s' = equipment_table s @ [e]
               \<and> total_quantity e = p_total_quantity d
               \<and> available_quantity e = p_total_quantity d
           | _ \<Rightarrow> status_code resp = HTTP_400_BAD_REQUEST \<and> s' = s))"
proof -
  have 1: "create_equipment s (d\<lparr>p_available_quantity := client_value\<rparr>) = create_equipment s d"
    by (simp add: create_equipment_def equipment_is_valid_def)
  have 2: "(case create_equipment s d of
        None \<Rightarrow> False
      | Some (s', resp) \<Rightarrow>
          (case response_data resp of
             EquipmentData e \<Rightarrow>
               status_code resp = HTTP_201_CREATED
               \<and> equipment_table s' = equipment_table s @ [e]
               \<and> total_quantity e = p_total_quantity d
               \<and> available_quantity e = p_total_quantity d
           | _ \<Rightarrow> status_code resp = HTTP_400_BAD_REQUEST \<and> s' = s))"
  proof (cases "equipment_is_valid d")
    case (Inl err)
    then show ?thesis by (simp add: create_equipment_def Response_def)
  next
    case (Inr v)
    show ?thesis by (simp add: create_equipment_valid [OF Inr] Response_def)
  qed
  show ?thesis using 1 2 by blast
qed

theorem create_equipment_available_is_total_witness:
  "create_equipment (demo_db Pending) (demo_payload\<lparr>p_available_quantity := Some 99\<rparr>)
     = create_equipment (demo_db Pending) demo_payload
   \<and> create_equipment (demo_db Pending) demo_payload
     = Some (demo_db Pending
               \<lparr>equipment_table := [demo_equipment,
                   \<lparr>eq_id = 4, eq_name = ''Tripod'', total_quantity = 4,
                    available_quantity = 4, is_active = True\<rparr>],
                next_equipment_pk := 5\<rparr>,
             Response (EquipmentData \<lparr>eq_id = 4, eq_name = ''Tripod'', total_quantity = 4,
                    available_quantity = 4, is_active = True\<rparr>) HTTP_201_CREATED)"
proof (rule conjI)
  show "create_equipment (demo_db Pending) (demo_payload\<lparr>p_available_quantity := Some 99\<rparr>)
     = create_equipment (demo_db Pending) demo_payload"
    using create_equipment_available_is_total
        [where s = "demo_db Pending" and d = demo_payload and client_value = "Some 99"]
    by (rule conjunct1)
next
  show "create_equipment (demo_db Pending) demo_payload
     = Some (demo_db Pending
               \<lparr>equipment_table := [demo_equipment,
                   \<lparr>eq_id = 4, eq_name = ''Tripod'', total_quantity = 4,
                    available_quantity = 4, is_active = True\<rparr>],
                next_equipment_pk := 5\<rparr>,
             Response (EquipmentData \<lparr>eq_id = 4, eq_name = ''Tripod'', total_quantity = 4,
                    available_quantity = 4, is_active = True\<rparr>) HTTP_201_CREATED)"
    by (simp add: create_equipment_def equipment_is_valid_def Let_def
      EquipmentSerializer_create_def Equipment_objects_create_def Equipment_insert_def
      Equipment_pre_save_def demo_payload_def demo_db_def)
qed

section \<open>The availability query\<close>

lemma overlapping_qs_sum:
  "sum_list (map quantity (overlapping_qs s e a b))
     = spec_query_sum (borrow_requests s) (eq_id e) a b"
proof -
  have "sum_list (map quantity
          (filter (\<lambda>req. equipment_id req = eq_id e \<and> status req \<in> set [Approved, Issued]
                 \<and> borrow_from req < b \<and> borrow_until req > a) xs))
        = spec_query_sum xs (eq_id e) a b" for xs
    by (induction xs) auto
  then show ?thesis unfolding overlapping_qs_def .
qed

text \<open>
  Claim C10. For an existing equipment and two parsable, non-empty date parameters, the
  \<^verbatim>\<open>availability\<close> view answers the total quantity minus the sum of the quantities of all
  approved or issued requests on the equipment that overlap the queried interval, with no
  request excluded and no clamping; with two back-to-back requests of three units on an
  equipment of five, the query over \<open>[10, 30)\<close> answers \<open>- 1\<close>.
\<close>

theorem availability_unclamped:
  "(get_equipment s p = Some e \<and> st \<noteq> [] \<and> en \<noteq> []
      \<and> parse st = Some start_date \<and> parse en = Some end_date \<longrightarrow>
      availability parse s p (Some st) (Some en)
        = Response (AvailabilityData (eq_id e) (total_quantity e)
             (total_quantity e - spec_query_sum (borrow_requests s) (eq_id e) start_date end_date)
             st en) HTTP_200_OK)
   \<and> availability demo_parse back_to_back_db 3 (Some ''T10'') (Some ''T30'')
        = Response (AvailabilityData 3 5 (- 1) ''T10'' ''T30'') HTTP_200_OK"
proof (intro conjI impI)
  assume "get_equipment s p = Some e \<and> st \<noteq> [] \<and> en \<noteq> []
      \<and> parse st = Some start_date \<and> parse en = Some end_date"
  then show "availability parse s p (Some st) (Some en)
        = Response (AvailabilityData (eq_id e) (total_quantity e)
             (total_quantity e - spec_query_sum (borrow_requests s) (eq_id e) start_date end_date)
             st en) HTTP_200_OK"
    by (simp add: availability_def Let_def overlapping_qs_sum)
next
  show "availability demo_parse back_to_back_db 3 (Some ''T10'') (Some ''T30'')
        = Response (AvailabilityData 3 5 (- 1) ''T10'' ''T30'') HTTP_200_OK"
    by (simp add: availability_def Let_def overlapping_qs_def get_equipment_def demo_parse_def
        back_to_back_db_def demo_request_def demo_equipment_def)
qed

theorem availability_unclamped_witness:
  "get_equipment back_to_back_db 3 = Some demo_equipment
   \<and> demo_parse ''T10'' = Some 10 \<and> demo_parse ''T30'' = Some 30
   \<and> spec_query_sum (borrow_requests back_to_back_db) 3 10 30 = 6
   \<and> availability demo_parse back_to_back_db 3 (Some ''T10'') (Some ''T30'')
        = Response (AvailabilityData 3 5 (- 1) ''T10'' ''T30'') HTTP_200_OK"
proof -
  have 1: "get_equipment back_to_back_db 3 = Some demo_equipment"
    by (simp add: get_equipment_def back_to_back_db_def demo_equipment_def)
  have 2: "demo_parse ''T10'' = Some 10 \<and> demo_parse ''T30'' = Some 30"
    by (simp add: demo_parse_def)
  have 3: "spec_query_sum (borrow_requests back_to_back_db) 3 10 30 = 6"
    by (simp add: back_to_back_db_def demo_request_def)
  from availability_unclamped [of back_to_back_db 3 demo_equipment "''T10''" "''T30''"
      demo_parse 10 30] 1 2 3
  show ?thesis by (simp add: demo_equipment_def)
qed

section \<open>Every call is a transition\<close>

lemma save_is_update:
  "pk r' = Some p \<Longrightarrow> fst (BorrowRequest_save s r') = update_request s p r'"
  by (simp add: BorrowRequest_save_def update_request_def)

lemma approve_success:
  assumes "get_object s p = Some (r, e)" "status r = Pending" "check_availability s e r"
  shows "approve s now request_user p =
     (fst (BorrowRequest_save s
             (r\<lparr>status := Approved, approved_by := Some request_user,
                approved_date := Some now\<rparr>)),
      Response (RequestData (r\<lparr>status := Approved, approved_by := Some request_user,
                approved_date := Some now\<rparr>)) HTTP_200_OK)"
  using assms get_objectD [OF assms(1)]
  by (simp add: approve_def Let_def BorrowRequest_save_def split: prod.splits)

lemma approve_failure:
  assumes "get_object s p = Some (r, e)" "\<not> (status r = Pending \<and> check_availability s e r)"
  shows "fst (approve s now request_user p) = s"
  using assms by (auto simp: approve_def)

lemma reject_success:
  assumes "get_object s p = Some (r, e)" "status r = Pending"
  shows "reject s now request_user reason_param p =
     (fst (BorrowRequest_save s
             (r\<lparr>status := Rejected,
                rejection_reason := (case reason_param of None \<Rightarrow> [] | Some x \<Rightarrow> x),
                approved_by := Some request_user, approved_date := Some now\<rparr>)),
      Response (RequestData (r\<lparr>status := Rejected,
                rejection_reason := (case reason_param of None \<Rightarrow> [] | Some x \<Rightarrow> x),
                approved_by := Some request_user, approved_date := Some now\<rparr>)) HTTP_200_OK)"
  using assms get_objectD [OF assms(1)]
  by (simp add: reject_def Let_def BorrowRequest_save_def split: prod.splits)

lemma reject_failure:
  assumes "get_object s p = Some (r, e)" "status r \<noteq> Pending"
  shows "fst (reject s now request_user reason_param p) = s"
  using assms by (auto simp: reject_def)

lemma not_found_unchanged:
  assumes "get_object s p = None"
  shows "fst (approve s now request_user p) = s"
    and "fst (reject s now request_user reason_param p) = s"
    and "fst (issue s now p) = s"
    and "fst (return_equipment s now notes_param p) = s"
  using assms by (simp_all add: approve_def reject_def issue_def return_equipment_def)

lemma transition_approve: "transition s (fst (approve s now request_user p))"
proof (cases "get_object s p")
  case None
  then show ?thesis by (simp add: not_found_unchanged t_none)
next
  case (Some a)
  obtain r e where g: "get_object s p = Some (r, e)" using Some by (cases a) auto
  show ?thesis
  proof (cases "status r = Pending \<and> check_availability s e r")
    case True
    let ?r' = "r\<lparr>status := Approved, approved_by := Some request_user,
                approved_date := Some now\<rparr>"
    have "pk ?r' = Some p" using get_objectD [OF g] by simp
    then have "fst (approve s now request_user p) = update_request s p ?r'"
      using approve_success [OF g, of now request_user] True by (simp add: save_is_update)
    moreover have "transition s (update_request s p ?r')"
      using True by (intro t_approve [OF g]) (simp_all add: same_booking_def)
    ultimately show ?thesis by simp
  next
    case False
    then show ?thesis using approve_failure [OF g False] by (simp add: t_none)
  qed
qed

lemma transition_reject: "transition s (fst (reject s now request_user reason_param p))"
proof (cases "get_object s p")
  case None
  then show ?thesis by (simp add: not_found_unchanged t_none)
next
  case (Some a)
  obtain r e where g: "get_object s p = Some (r, e)" using Some by (cases a) auto
  show ?thesis
  proof (cases "status r = Pending")
    case True
    let ?r' = "r\<lparr>status := Rejected,
                rejection_reason := (case reason_param of None \<Rightarrow> [] | Some x \<Rightarrow> x),
                approved_by := Some request_user, approved_date := Some now\<rparr>"
    have "pk ?r' = Some p" using get_objectD [OF g] by simp
    then have "fst (reject s now request_user reason_param p) = update_request s p ?r'"
      using reject_success [OF g True, of now request_user reason_param]
      by (simp add: save_is_update)
    moreover have "transition s (update_request s p ?r')"
      using True by (intro t_reject [OF g]) (simp_all add: same_booking_def)
    ultimately show ?thesis by simp
  next
    case False
    then show ?thesis using reject_failure [OF g False] by (simp add: t_none)
  qed
qed

lemma transition_issue: "transition s (fst (issue s now p))"
proof (cases "get_object s p")
  case None
  then show ?thesis by (simp add: not_found_unchanged t_none)
next
  case (Some a)
  obtain r e where g: "get_object s p = Some (r, e)" using Some by (cases a) auto
  show ?thesis
  proof (cases "status r = Approved \<and> quantity r \<le> available_quantity e")
    case True
    let ?r' = "r\<lparr>status := Issued, issued_date := Some now\<rparr>"
    let ?s1 = "Equipment_save s (e\<lparr>available_quantity := available_quantity e - quantity r\<rparr>)"
    have "pk ?r' = Some p" using get_objectD [OF g] by simp
    then have "fst (issue s now p) = update_request ?s1 p ?r'"
      using issue_success [OF g, of now] True by (simp add: save_is_update)
    moreover have "transition s (update_request ?s1 p ?r')"
      using True by (intro t_issue [OF g]) (simp_all add: same_booking_def)
    ultimately show ?thesis by simp
  next
    case False
    then show ?thesis using issue_failure [OF g False] by (simp add: t_none)
  qed
qed

lemma transition_return: "transition s (fst (return_equipment s now notes_param p))"
proof (cases "get_object s p")
  case None
  then show ?thesis by (simp add: not_found_unchanged t_none)
next
  case (Some a)
  obtain r e where g: "get_object s p = Some (r, e)" using Some by (cases a) auto
  show ?thesis
  proof (cases "status r = Issued \<or> status r = Overdue")
    case True
    let ?r' = "r\<lparr>status := Returned, returned_date := Some now,
                notes_text := (case notes_param of None \<Rightarrow> notes_text r
                               | Some x \<Rightarrow> if x \<noteq> [] then x else notes_text r)\<rparr>"
    let ?s1 = "Equipment_save s (e\<lparr>available_quantity := available_quantity e + quantity r\<rparr>)"
    have "pk ?r' = Some p" using get_objectD [OF g] by simp
    then have "fst (return_equipment s now notes_param p) = update_request ?s1 p ?r'"
      using return_success [OF g True, of now notes_param] by (simp add: save_is_update)
    moreover have "transition s (update_request ?s1 p ?r')"
      using True by (intro t_return [OF g]) (simp_all add: same_booking_def)
    ultimately show ?thesis by simp
  next
    case False
    then show ?thesis using return_failure [OF g False] by (simp add: t_none)
  qed
qed

lemma is_valid_quantity: "is_valid s now d = Inr (d', e) \<Longrightarrow> d' = d \<and> 1 \<le> p_quantity d"
  by (auto simp: is_valid_def request_field_errors_def validate_def
      split: if_splits option.splits sum.splits)

lemma transition_create: "transition s (fst (create_request s now request_user d))"
proof (cases "is_valid s now d")
  case (Inl err)
  then show ?thesis by (simp add: create_request_def t_none)
next
  case (Inr a)
  obtain d' e where v: "is_valid s now d = Inr (d', e)" using Inr by (cases a) auto
  have q: "d' = d" "1 \<le> p_quantity d" using is_valid_quantity [OF v] by simp_all
  show ?thesis
  proof (cases "BorrowRequestSerializer_create s now request_user d e")
    case (Inl err)
    then show ?thesis using v q by (simp add: create_request_def t_none)
  next
    case (Inr b)
    let ?r = "\<lparr>pk = None, user = request_user, equipment_id = eq_id e,
                      quantity = p_quantity d, purpose = p_purpose d, status = Pending,
                      requested_date = now, borrow_from = p_borrow_from d,
                      borrow_until = p_borrow_until d, approved_by = None,
                      approved_date = None, issued_date = None, returned_date = None,
                      rejection_reason = p_rejection_reason d, notes_text = p_notes d\<rparr>"
    have "b = BorrowRequest_save s ?r"
      using Inr by (simp add: BorrowRequestSerializer_create_def Let_def split: if_splits)
    then have "fst (create_request s now request_user d) = fst (BorrowRequest_save s ?r)"
      using v q Inr by (simp add: create_request_def split: prod.splits)
    moreover have "transition s (fst (BorrowRequest_save s ?r))"
      using q by (intro t_create) simp_all
    ultimately show ?thesis by simp
  qed
qed

lemma transition_step: "transition s (step s op)"
  by (cases op)
     (simp_all add: transition_create transition_approve transition_reject transition_issue
        transition_return)

section \<open>Invariants along transitions\<close>

lemma update_request_simps [simp]:
  "borrow_requests (update_request s p r')
     = map (\<lambda>row. if pk row = Some p then r' else row) (borrow_requests s)"
  "equipment_table (update_request s p r') = equipment_table s"
  "next_request_pk (update_request s p r') = next_request_pk s"
  by (simp_all add: update_request_def)

lemma Equipment_save_simps [simp]:
  "equipment_table (Equipment_save s e1)
     = map (\<lambda>row. if eq_id row = eq_id e1 then Equipment_pre_save e1 else row)
         (equipment_table s)"
  "next_request_pk (Equipment_save s e1) = next_request_pk s"
  by (simp_all add: Equipment_save_def Let_def)

lemma insert_request_simps:
  "pk r' = None \<Longrightarrow>
     borrow_requests (fst (BorrowRequest_save s r'))
       = borrow_requests s @ [r'\<lparr>pk := Some (next_request_pk s)\<rparr>]
   \<and> next_request_pk (fst (BorrowRequest_save s r')) = Suc (next_request_pk s)"
  by (simp add: BorrowRequest_save_def Let_def)

lemma quantities_valid_update:
  assumes "quantities_valid s" "1 \<le> quantity r'" "borrow_requests s1 = borrow_requests s"
  shows "quantities_valid (update_request s1 p r')"
  using assms by (auto simp: quantities_valid_def list_all_iff)

lemma same_booking_quantity:
  "get_object s p = Some (r, e) \<Longrightarrow> quantities_valid s \<Longrightarrow> same_booking r r'
     \<Longrightarrow> 1 \<le> quantity r'"
  by (auto simp: quantities_valid_def list_all_iff same_booking_def dest!: get_objectD)

lemma quantities_valid_transition:
  assumes "transition s s'" "quantities_valid s"
  shows "quantities_valid s'"
  using assms
proof (cases rule: transition.cases)
  case t_none
  then show ?thesis using assms(2) by simp
next
  case (t_create r')
  then show ?thesis
    using assms(2) insert_request_simps [of r' s]
    by (simp add: quantities_valid_def)
next
  case (t_approve p r e r')
  then show ?thesis
    using quantities_valid_update [OF assms(2) same_booking_quantity [OF t_approve(2) assms(2)]]
    by simp
next
  case (t_reject p r e r')
  then show ?thesis
    using quantities_valid_update [OF assms(2) same_booking_quantity [OF t_reject(2) assms(2)]]
    by simp
next
  case (t_issue p r e r')
  then show ?thesis
    using quantities_valid_update [OF assms(2) same_booking_quantity [OF t_issue(2) assms(2)]]
    by simp
next
  case (t_return p r e r')
  then show ?thesis
    using quantities_valid_update [OF assms(2) same_booking_quantity [OF t_return(2) assms(2)]]
    by simp
qed

lemma counter_in_bounds_save:
  assumes "counter_in_bounds s"
    "0 \<le> available_quantity (Equipment_pre_save e1)"
    "equipment_table s1 = equipment_table (Equipment_save s e1)"
  shows "counter_in_bounds s1"
proof -
  have "available_quantity (Equipment_pre_save e1) \<le> total_quantity (Equipment_pre_save e1)"
    by (simp add: Equipment_pre_save_def)
  then show ?thesis
    using assms by (auto simp: counter_in_bounds_def list_all_iff)
qed

lemma get_object_bounds:
  "get_object s p = Some (r, e) \<Longrightarrow> counter_in_bounds s \<Longrightarrow>
     0 \<le> available_quantity e \<and> available_quantity e \<le> total_quantity e"
  by (auto simp: counter_in_bounds_def list_all_iff dest!: get_objectD)

lemma get_object_quantity:
  "get_object s p = Some (r, e) \<Longrightarrow> quantities_valid s \<Longrightarrow> 1 \<le> quantity r"
  by (auto simp: quantities_valid_def list_all_iff dest!: get_objectD)

lemma counter_in_bounds_transition:
  assumes "transition s s'" "counter_in_bounds s" "quantities_valid s"
  shows "counter_in_bounds s'"
  using assms(1)
proof (cases rule: transition.cases)
  case t_none
  then show ?thesis using assms(2) by simp
next
  case (t_create r')
  then show ?thesis
    using assms(2) by (simp add: counter_in_bounds_def)
next
  case (t_approve p r e r')
  then show ?thesis using assms(2) by (simp add: counter_in_bounds_def)
next
  case (t_reject p r e r')
  then show ?thesis using assms(2) by (simp add: counter_in_bounds_def)
next
  case (t_issue p r e r')
  have "0 \<le> available_quantity
          (Equipment_pre_save (e\<lparr>available_quantity := available_quantity e - quantity r\<rparr>))"
    using get_object_bounds [OF t_issue(2) assms(2)] t_issue(4)
    by (simp add: Equipment_pre_save_def)
  then show ?thesis
    using counter_in_bounds_save [OF assms(2), of _ s'] t_issue(1) by simp
next
  case (t_return p r e r')
  have "0 \<le> available_quantity
          (Equipment_pre_save (e\<lparr>available_quantity := available_quantity e + quantity r\<rparr>))"
    using get_object_bounds [OF t_return(2) assms(2)] get_object_quantity [OF t_return(2) assms(3)]
    by (simp add: Equipment_pre_save_def)
  then show ?thesis
    using counter_in_bounds_save [OF assms(2), of _ s'] t_return(1) by simp
qed

lemma run_Cons: "run s (op # ops) = run (step s op) ops"
  by (simp add: run_def)

lemma run_Nil: "run s [] = s"
  by (simp add: run_def)

lemma quantities_valid_run: "quantities_valid s \<Longrightarrow> quantities_valid (run s ops)"
proof (induction ops arbitrary: s)
  case Nil
  then show ?case by (simp add: run_Nil)
next
  case (Cons op ops)
  then show ?case
    using quantities_valid_transition [OF transition_step] by (simp add: run_Cons)
qed

lemma counter_in_bounds_run:
  "counter_in_bounds s \<Longrightarrow> quantities_valid s \<Longrightarrow> counter_in_bounds (run s ops)"
proof (induction ops arbitrary: s)
  case Nil
  then show ?case by (simp add: run_Nil)
next
  case (Cons op ops)
  have "counter_in_bounds (step s op)" "quantities_valid (step s op)"
    using counter_in_bounds_transition [OF transition_step] 
      quantities_valid_transition [OF transition_step] Cons.prems by blast+
  then show ?case using Cons.IH by (simp add: run_Cons)
qed

lemma same_booking_pk:
  "get_object s p = Some (r, e) \<Longrightarrow> same_booking r r' \<Longrightarrow> pk r' = Some p"
  by (auto simp: same_booking_def dest!: get_objectD)

lemma keys_valid_update:
  assumes "keys_valid s" "pk r' = Some p"
    "borrow_requests s1 = borrow_requests s" "next_request_pk s1 = next_request_pk s"
    "map eq_id (equipment_table s1) = map eq_id (equipment_table s)"
  shows "keys_valid (update_request s1 p r')"
proof -
  let ?f = "\<lambda>row. if pk row = Some p then r' else row"
  let ?s' = "update_request s1 p r'"
  have rows: "borrow_requests ?s' = map ?f (borrow_requests s)"
    using assms(3) by (simp add: update_request_def)
  have pk_f: "pk (?f y) = pk y" for y
    using assms(2) by simp
  have mp: "map pk (map ?f (borrow_requests s)) = map pk (borrow_requests s)"
    unfolding map_map by (rule map_cong [OF refl]) (simp add: assms(2))
  have a: "distinct (map pk (borrow_requests ?s'))"
    unfolding rows mp using assms(1) by (simp add: keys_valid_def)
  have b: "distinct (map eq_id (equipment_table ?s'))"
    using assms(1,5) unfolding keys_valid_def by (simp add: update_request_def)
  have nx: "next_request_pk ?s' = next_request_pk s"
    using assms(4) by (simp add: update_request_def)
  have c: "list_all (\<lambda>r. case pk r of None \<Rightarrow> True | Some k \<Rightarrow> k < next_request_pk ?s')
             (borrow_requests ?s')"
    unfolding list_all_iff nx rows
  proof
    fix x assume "x \<in> set (map ?f (borrow_requests s))"
    then obtain y where y: "y \<in> set (borrow_requests s)" "x = ?f y" by auto
    have "pk x = pk y" unfolding y(2) by (rule pk_f)
    moreover have "case pk y of None \<Rightarrow> True | Some k \<Rightarrow> k < next_request_pk s"
      using assms(1) y(1) by (simp add: keys_valid_def list_all_iff)
    ultimately show "case pk x of None \<Rightarrow> True | Some k \<Rightarrow> k < next_request_pk s"
      by simp
  qed
  show ?thesis unfolding keys_valid_def using a b c by blast
qed

lemma map_eq_id_save:
  "map eq_id (equipment_table (Equipment_save s e1)) = map eq_id (equipment_table s)"
  by (induction "equipment_table s") (auto simp: Equipment_save_def Let_def)

lemma keys_valid_transition:
  assumes "transition s s'" "keys_valid s"
  shows "keys_valid s'"
  using assms(1)
proof (cases rule: transition.cases)
  case t_none
  then show ?thesis using assms(2) by simp
next
  case (t_create r')
  let ?n = "next_request_pk s"
  have lt: "k < ?n" if "x \<in> set (borrow_requests s)" "pk x = Some k" for x k
    using assms(2) that by (fastforce simp: keys_valid_def list_all_iff)
  have fresh: "Some ?n \<notin> set (map pk (borrow_requests s))"
  proof
    assume "Some ?n \<in> set (map pk (borrow_requests s))"
    then obtain x where "x \<in> set (borrow_requests s)" "pk x = Some ?n"
      by auto
    then have "?n < ?n" using lt by blast
    then show False by simp
  qed
  have rows: "borrow_requests s' = borrow_requests s @ [r'\<lparr>pk := Some ?n\<rparr>]"
    and nx: "next_request_pk s' = Suc ?n"
    using insert_request_simps [OF t_create(2), of s] t_create(1) by simp_all
  have tbl: "equipment_table s' = equipment_table s"
    unfolding t_create(1) by simp
  have a: "distinct (map pk (borrow_requests s'))"
    unfolding rows using assms(2) fresh by (simp add: keys_valid_def)
  have b: "distinct (map eq_id (equipment_table s'))"
    unfolding tbl using assms(2) by (simp add: keys_valid_def)
  have c: "list_all (\<lambda>r. case pk r of None \<Rightarrow> True | Some k \<Rightarrow> k < next_request_pk s')
             (borrow_requests s')"
    unfolding list_all_iff nx rows
  proof
    fix x assume "x \<in> set (borrow_requests s @ [r'\<lparr>pk := Some ?n\<rparr>])"
    then consider "x \<in> set (borrow_requests s)" | "x = r'\<lparr>pk := Some ?n\<rparr>" by auto
    then show "case pk x of None \<Rightarrow> True | Some k \<Rightarrow> k < Suc ?n"
    proof cases
      case 1
      then show ?thesis using lt [OF 1] by (cases "pk x") (auto simp: less_Suc_eq)
    next
      case 2
      then show ?thesis by simp
    qed
  qed
  show ?thesis unfolding keys_valid_def using a b c by blast
next
  case (t_approve p r e r')
  then show ?thesis
    using keys_valid_update [OF assms(2) same_booking_pk [OF t_approve(2,5)], of s] by simp
next
  case (t_reject p r e r')
  then show ?thesis
    using keys_valid_update [OF assms(2) same_booking_pk [OF t_reject(2,4)], of s] by simp
next
  case (t_issue p r e r')
  show ?thesis
    unfolding t_issue(1)
    by (rule keys_valid_update [OF assms(2) same_booking_pk [OF t_issue(2,5)]
          borrow_requests_Equipment_save Equipment_save_simps(2) map_eq_id_save])
next
  case (t_return p r e r')
  show ?thesis
    unfolding t_return(1)
    by (rule keys_valid_update [OF assms(2) same_booking_pk [OF t_return(2,4)]
          borrow_requests_Equipment_save Equipment_save_simps(2) map_eq_id_save])
qed

lemma covering_sum_contribution:
  "covering_sum rows eid t = sum_list (map (contribution eid t) rows)"
  by (induction rows) (auto simp: covering_sum_def contribution_def)

lemma sum_list_replace:
  fixes g :: "'a \<Rightarrow> int"
  assumes "distinct (map k xs)" "y \<in> set xs"
  shows "sum_list (map g (map (\<lambda>x. if k x = k y then y' else x) xs))
           = sum_list (map g xs) - g y + g y'"
  using assms
proof (induction xs)
  case Nil
  then show ?case by simp
next
  case (Cons a xs)
  show ?case
  proof (cases "a = y")
    case True
    have notin: "k y \<notin> k ` set xs" using Cons.prems(1) True by simp
    have "map (\<lambda>x. if k x = k y then y' else x) xs = xs"
    proof (intro map_idI)
      fix x assume "x \<in> set xs"
      then have "k x \<in> k ` set xs" by (rule imageI)
      then have "k x \<noteq> k y" using notin by metis
      then show "(if k x = k y then y' else x) = x" by simp
    qed
    then show ?thesis using True by simp
  next
    case False
    then have y: "y \<in> set xs" using Cons.prems(2) by simp
    then have "k a \<noteq> k y" using Cons.prems(1) by auto
    then show ?thesis using Cons.IH y Cons.prems(1) by simp
  qed
qed

lemma covering_sum_update:
  assumes "distinct (map pk rows)" "r \<in> set rows" "pk r = Some p"
  shows "covering_sum (map (\<lambda>row. if pk row = Some p then r' else row) rows) eid t
           = covering_sum rows eid t - contribution eid t r + contribution eid t r'"
  using sum_list_replace [OF assms(1,2), of "contribution eid t" r'] assms(3)
  by (simp add: covering_sum_contribution)

lemma covering_le_overlapping:
  assumes "\<forall>x\<in>set xs. 0 \<le> quantity x \<and> (pk x = pk c \<longrightarrow> \<not> active_at (eq_id e) t x)"
    "borrow_from c \<le> t" "t < borrow_until c"
  shows "covering_sum xs (eq_id e) t \<le> spec_overlapping_sum xs e c"
  using assms
proof (induction xs)
  case Nil
  then show ?case by (simp add: covering_sum_def)
next
  case (Cons a xs)
  have IH: "covering_sum xs (eq_id e) t \<le> spec_overlapping_sum xs e c"
    using Cons by simp
  have a: "0 \<le> quantity a" "pk a = pk c \<longrightarrow> \<not> active_at (eq_id e) t a"
    using Cons.prems(1) by simp_all
  have "contribution (eq_id e) t a
          \<le> (if equipment_id a = eq_id e \<and> (status a = Approved \<or> status a = Issued)
                 \<and> spec_overlaps a c \<and> pk a \<noteq> pk c then quantity a else 0)"
    using a Cons.prems(2,3)
    by (auto simp: contribution_def active_at_def spec_overlaps_def)
  then show ?case
    using IH by (simp add: covering_sum_contribution)
qed

lemma capacity_invariant_transfer:
  assumes "capacity_invariant s"
    "\<forall>e'\<in>set (equipment_table s').
        \<exists>e\<in>set (equipment_table s). eq_id e = eq_id e' \<and> total_quantity e = total_quantity e'"
    "\<And>eid t. covering_sum (borrow_requests s') eid t \<le> covering_sum (borrow_requests s) eid t"
  shows "capacity_invariant s'"
  unfolding capacity_invariant_def
proof (intro ballI allI)
  fix e' t assume "e' \<in> set (equipment_table s')"
  then obtain e where e: "e \<in> set (equipment_table s)" "eq_id e = eq_id e'"
    "total_quantity e = total_quantity e'"
    using assms(2) by blast
  have "covering_sum (borrow_requests s) (eq_id e) t \<le> total_quantity e"
    using assms(1) e(1) by (simp add: capacity_invariant_def)
  then show "covering_sum (borrow_requests s') (eq_id e') t \<le> total_quantity e'"
    using assms(3) [of "eq_id e'" t] e(2,3) by simp
qed

lemma equipment_after_save:
  assumes "e \<in> set (equipment_table s)" "eq_id e1 = eq_id e" "total_quantity e1 = total_quantity e"
  shows "\<forall>e'\<in>set (equipment_table (Equipment_save s e1)).
        \<exists>e\<in>set (equipment_table s). eq_id e = eq_id e' \<and> total_quantity e = total_quantity e'"
  using assms by (auto split: if_splits)

section \<open>The capacity invariant along transitions\<close>

lemma keys_valid_same_pk:
  assumes "keys_valid s" "x \<in> set (borrow_requests s)" "r \<in> set (borrow_requests s)"
    "pk x = pk r"
  shows "x = r"
proof -
  have "inj_on pk (set (borrow_requests s))"
    using assms(1) by (simp add: keys_valid_def distinct_map)
  then show ?thesis using assms(4,2,3) by (rule inj_onD)
qed

lemma keys_valid_same_eq_id:
  assumes "keys_valid s" "x \<in> set (equipment_table s)" "e \<in> set (equipment_table s)"
    "eq_id x = eq_id e"
  shows "x = e"
proof -
  have "inj_on eq_id (set (equipment_table s))"
    using assms(1) by (simp add: keys_valid_def distinct_map)
  then show ?thesis using assms(4,2,3) by (rule inj_onD)
qed

lemma contribution_nonneg: "0 \<le> quantity r \<Longrightarrow> 0 \<le> contribution eid t r"
  by (simp add: contribution_def)

lemma covering_sum_after_update:
  assumes "borrow_requests s1 = borrow_requests s" "keys_valid s" "get_object s p = Some (r, e)"
  shows "covering_sum (borrow_requests (update_request s1 p r')) eid t
           = covering_sum (borrow_requests s1) eid t - contribution eid t r
             + contribution eid t r'"
proof -
  have d: "distinct (map pk (borrow_requests s))" using assms(2) by (simp add: keys_valid_def)
  have r: "r \<in> set (borrow_requests s)" "pk r = Some p"
    using get_objectD [OF assms(3)] by simp_all
  show ?thesis
    using covering_sum_update [OF d r, of r' eid t] assms(1) by simp
qed

lemma capacity_invariant_approve:
  assumes "capacity_invariant s" "keys_valid s" "quantities_valid s"
    "get_object s p = Some (r, e)" "status r = Pending" "check_availability s e r"
    "same_booking r r'" "status r' = Approved"
  shows "capacity_invariant (update_request s p r')"
  unfolding capacity_invariant_def
proof (intro ballI allI)
  fix e2 t
  assume "e2 \<in> set (equipment_table (update_request s p r'))"
  then have e2: "e2 \<in> set (equipment_table s)" by simp
  note D = get_objectD [OF assms(4)]
  have old: "covering_sum (borrow_requests s) (eq_id e2) t \<le> total_quantity e2"
    using assms(1) e2 by (simp add: capacity_invariant_def)
  have upd: "covering_sum (borrow_requests (update_request s p r')) (eq_id e2) t
           = covering_sum (borrow_requests s) (eq_id e2) t - contribution (eq_id e2) t r
             + contribution (eq_id e2) t r'"
    by (rule covering_sum_after_update [OF refl assms(2,4)])
  have c0: "contribution (eq_id e2) t r = 0"
    using assms(5) by (simp add: contribution_def active_at_def)
  show "covering_sum (borrow_requests (update_request s p r')) (eq_id e2) t \<le> total_quantity e2"
  proof (cases "active_at (eq_id e2) t r'")
    case False
    then show ?thesis using upd c0 old by (simp add: contribution_def)
  next
    case True
    then have same: "eq_id e2 = eq_id e" and iv: "borrow_from r \<le> t" "t < borrow_until r"
      using assms(7) D by (simp_all add: active_at_def same_booking_def)
    have "e2 = e" using keys_valid_same_eq_id [OF assms(2) e2 _ same] D by simp
    have side: "\<forall>x\<in>set (borrow_requests s).
                 0 \<le> quantity x \<and> (pk x = pk r \<longrightarrow> \<not> active_at (eq_id e) t x)"
    proof
      fix x assume x: "x \<in> set (borrow_requests s)"
      have "0 \<le> quantity x" using assms(3) x by (auto simp: quantities_valid_def list_all_iff)
      moreover have "\<not> active_at (eq_id e) t x" if "pk x = pk r"
        using keys_valid_same_pk [OF assms(2) x _ that] D assms(5)
        by (simp add: active_at_def)
      ultimately show "0 \<le> quantity x \<and> (pk x = pk r \<longrightarrow> \<not> active_at (eq_id e) t x)"
        by blast
    qed
    have "covering_sum (borrow_requests s) (eq_id e) t \<le> spec_overlapping_sum (borrow_requests s) e r"
      by (rule covering_le_overlapping [OF side iv])
    moreover have "quantity r \<le> total_quantity e - spec_overlapping_sum (borrow_requests s) e r"
      using assms(6) by (simp add: check_availability_spec_sum)
    moreover have "contribution (eq_id e2) t r' = quantity r"
      using True assms(7) by (simp add: contribution_def same_booking_def)
    ultimately show ?thesis using upd c0 same \<open>e2 = e\<close> by simp
  qed
qed

lemma capacity_invariant_transition:
  assumes "transition s s'" "capacity_invariant s" "keys_valid s" "quantities_valid s"
  shows "capacity_invariant s'"
  using assms(1)
proof (cases rule: transition.cases)
  case t_none
  then show ?thesis using assms(2) by simp
next
  case (t_create r')
  have rows: "borrow_requests s' = borrow_requests s @ [r'\<lparr>pk := Some (next_request_pk s)\<rparr>]"
    using insert_request_simps [OF t_create(2), of s] t_create(1) by simp
  have tbl: "equipment_table s' = equipment_table s"
    unfolding t_create(1) by simp
  have eq: "covering_sum (borrow_requests s') eid t = covering_sum (borrow_requests s) eid t"
    for eid t
    unfolding rows using t_create(3) by (simp add: covering_sum_def active_at_def)
  show ?thesis
  proof (rule capacity_invariant_transfer [OF assms(2)])
    show "\<forall>e'\<in>set (equipment_table s').
        \<exists>e\<in>set (equipment_table s). eq_id e = eq_id e' \<and> total_quantity e = total_quantity e'"
      unfolding tbl by blast
    show "covering_sum (borrow_requests s') eid t \<le> covering_sum (borrow_requests s) eid t"
      for eid t using eq by simp
  qed
next
  case (t_approve p r e r')
  show ?thesis
    unfolding t_approve(1)
    by (rule capacity_invariant_approve [OF assms(2-4) t_approve(2-6)])
next
  case (t_reject p r e r')
  have eq: "covering_sum (borrow_requests s') eid t = covering_sum (borrow_requests s) eid t"
    for eid t
    unfolding t_reject(1)
    using covering_sum_after_update [OF refl assms(3) t_reject(2), of r' eid t] t_reject(3,5)
    by (simp add: contribution_def active_at_def)
  have tbl: "equipment_table s' = equipment_table s" unfolding t_reject(1) by simp
  show ?thesis
  proof (rule capacity_invariant_transfer [OF assms(2)])
    show "\<forall>e'\<in>set (equipment_table s').
        \<exists>e\<in>set (equipment_table s). eq_id e = eq_id e' \<and> total_quantity e = total_quantity e'"
      unfolding tbl by blast
    show "covering_sum (borrow_requests s') eid t \<le> covering_sum (borrow_requests s) eid t"
      for eid t using eq by simp
  qed
next
  case (t_issue p r e r')
  let ?e1 = "e\<lparr>available_quantity := available_quantity e - quantity r\<rparr>"
  note D = get_objectD [OF t_issue(2)]
  have "covering_sum (borrow_requests s') eid t = covering_sum (borrow_requests s) eid t"
    for eid t
    unfolding t_issue(1)
    using covering_sum_after_update [OF borrow_requests_Equipment_save assms(3) t_issue(2),
        of ?e1 r' eid t] t_issue(3,5,6)
    by (simp add: contribution_def active_at_def same_booking_def)
  moreover have "\<forall>e'\<in>set (equipment_table s').
        \<exists>e\<in>set (equipment_table s). eq_id e = eq_id e' \<and> total_quantity e = total_quantity e'"
    unfolding t_issue(1) update_request_simps(2)
    by (rule equipment_after_save [of e]) (simp_all add: D)
  ultimately show ?thesis
    by (intro capacity_invariant_transfer [OF assms(2)]) simp_all
next
  case (t_return p r e r')
  let ?e1 = "e\<lparr>available_quantity := available_quantity e + quantity r\<rparr>"
  note D = get_objectD [OF t_return(2)]
  have q: "0 \<le> quantity r" using get_object_quantity [OF t_return(2) assms(4)] by simp
  have "covering_sum (borrow_requests s') eid t \<le> covering_sum (borrow_requests s) eid t"
    for eid t
    unfolding t_return(1)
    using covering_sum_after_update [OF borrow_requests_Equipment_save assms(3) t_return(2),
        of ?e1 r' eid t] t_return(5) contribution_nonneg [OF q, of eid t]
    by (simp add: contribution_def [of eid t r'] active_at_def)
  moreover have "\<forall>e'\<in>set (equipment_table s').
        \<exists>e\<in>set (equipment_table s). eq_id e = eq_id e' \<and> total_quantity e = total_quantity e'"
    unfolding t_return(1) update_request_simps(2)
    by (rule equipment_after_save [of e]) (simp_all add: D)
  ultimately show ?thesis
    by (intro capacity_invariant_transfer [OF assms(2)]) simp_all
qed

lemma keys_valid_run: "keys_valid s \<Longrightarrow> keys_valid (run s ops)"
proof (induction ops arbitrary: s)
  case Nil
  then show ?case by (simp add: run_Nil)
next
  case (Cons op ops)
  then show ?case
    using keys_valid_transition [OF transition_step] by (simp add: run_Cons)
qed

section \<open>The two invariants over sequences of operations\<close>

lemma demo_invariants:
  "counter_in_bounds (demo_db st)" "quantities_valid (demo_db st)" "keys_valid (demo_db st)"
  by (simp_all add: counter_in_bounds_def quantities_valid_def keys_valid_def demo_db_def
      demo_request_def demo_equipment_def)

lemma demo_capacity: "capacity_invariant (demo_db Pending)"
  by (simp add: capacity_invariant_def covering_sum_def active_at_def demo_db_def
      demo_request_def demo_equipment_def)

lemma demo_run:
  "run (demo_db Pending) [Approve 5 9 4, Issue 12 4]
     = \<lparr>equipment_table = [demo_equipment\<lparr>available_quantity := 3\<rparr>],
        borrow_requests = [demo_request\<lparr>status := Issued, approved_by := Some 9,
                             approved_date := Some 5, issued_date := Some 12\<rparr>],
        next_equipment_pk = 4, next_request_pk = 5\<rparr>"
proof -
  have c: "check_availability (demo_db Pending) demo_equipment (demo_request\<lparr>status := Pending\<rparr>)"
    by (simp add: check_availability_def overlapping_qs_def demo_db_def demo_request_def
        demo_equipment_def)
  have 1: "step (demo_db Pending) (Approve 5 9 4)
         = demo_db Pending\<lparr>borrow_requests :=
             [demo_request\<lparr>status := Approved, approved_by := Some 9,
                approved_date := Some 5\<rparr>]\<rparr>"
    using approve_success [OF demo_get_object _ c, of 5 9]
    by (simp add: BorrowRequest_save_def demo_db_def demo_request_def)
  let ?s1 = "demo_db Pending\<lparr>borrow_requests :=
             [demo_request\<lparr>status := Approved, approved_by := Some 9,
                approved_date := Some 5\<rparr>]\<rparr>"
  have g: "get_object ?s1 4 = Some (demo_request\<lparr>status := Approved, approved_by := Some 9,
                approved_date := Some 5\<rparr>, demo_equipment)"
    by (simp add: get_object_def demo_db_def demo_request_def demo_equipment_def)
  have 2: "step ?s1 (Issue 12 4)
     = \<lparr>equipment_table = [demo_equipment\<lparr>available_quantity := 3\<rparr>],
        borrow_requests = [demo_request\<lparr>status := Issued, approved_by := Some 9,
                             approved_date := Some 5, issued_date := Some 12\<rparr>],
        next_equipment_pk = 4, next_request_pk = 5\<rparr>"
    using issue_success [OF g, of 12]
    by (simp add: BorrowRequest_save_def Equipment_save_def Equipment_pre_save_def demo_db_def
        demo_request_def demo_equipment_def)
  show ?thesis unfolding run_def using 1 2 by simp
qed

text \<open>
  Claim C1. From any state that satisfies the capacity invariant and the data model's
  constraints (unique primary keys, every stored quantity at least 1), every sequence of
  create, approve, reject, issue and return operations, run one after another, ends in a
  state that satisfies the capacity invariant: for every equipment item and every instant,
  the approved and issued requests covering the instant sum to at most the total quantity.
\<close>

theorem capacity_invariant_preserved:
  assumes "capacity_invariant s" and "keys_valid s" and "quantities_valid s"
  shows "capacity_invariant (run s ops)"
  using assms
proof (induction ops arbitrary: s)
  case Nil
  then show ?case by (simp add: run_Nil)
next
  case (Cons op ops)
  have t: "transition s (step s op)" by (rule transition_step)
  have "capacity_invariant (step s op)"
    by (rule capacity_invariant_transition [OF t Cons.prems])
  moreover have "keys_valid (step s op)"
    by (rule keys_valid_transition [OF t Cons.prems(2)])
  moreover have "quantities_valid (step s op)"
    by (rule quantities_valid_transition [OF t Cons.prems(3)])
  ultimately show ?case using Cons.IH by (simp add: run_Cons)
qed

theorem capacity_invariant_preserved_witness:
  "capacity_invariant (demo_db Pending) \<and> keys_valid (demo_db Pending)
   \<and> quantities_valid (demo_db Pending)
   \<and> map status (borrow_requests (run (demo_db Pending) [Approve 5 9 4, Issue 12 4])) = [Issued]
   \<and> capacity_invariant (run (demo_db Pending) [Approve 5 9 4, Issue 12 4])"
  using capacity_invariant_preserved [OF demo_capacity demo_invariants(3,2),
      of "[Approve 5 9 4, Issue 12 4]"] demo_capacity demo_invariants(3,2) [of Pending]
  by (simp add: demo_run)

text \<open>
  Claim C8. From any state in which every counter lies between zero and the total
  quantity and every stored quantity is at least 1, every sequence of the operations keeps
  every counter between zero and the total quantity; the write of an equipment record
  stores the smaller of the counter and the total quantity; and \<^verbatim>\<open>issue\<close> on a request
  that asks for more than the counter holds changes nothing.
\<close>

theorem counter_stays_in_bounds:
  assumes "counter_in_bounds s" and "quantities_valid s"
  shows "counter_in_bounds (run s ops)
       \<and> available_quantity (Equipment_pre_save e)
           = min (available_quantity e) (total_quantity e)
       \<and> (get_object s p = Some (r, e1) \<and> available_quantity e1 < quantity r
            \<longrightarrow> fst (issue s now p) = s)"
proof (intro conjI impI)
  show "counter_in_bounds (run s ops)"
    by (rule counter_in_bounds_run [OF assms])
next
  show "available_quantity (Equipment_pre_save e)
           = min (available_quantity e) (total_quantity e)"
    by (rule Equipment_pre_save_available)
next
  assume "get_object s p = Some (r, e1) \<and> available_quantity e1 < quantity r"
  then show "fst (issue s now p) = s"
    using issue_failure [of s p r e1 now] by simp
qed

theorem counter_stays_in_bounds_witness:
  "counter_in_bounds (demo_db Pending) \<and> quantities_valid (demo_db Pending)
   \<and> map available_quantity
        (equipment_table (run (demo_db Pending) [Approve 5 9 4, Issue 12 4])) = [3]
   \<and> counter_in_bounds (run (demo_db Pending) [Approve 5 9 4, Issue 12 4])"
  using counter_stays_in_bounds [OF demo_invariants(1,2), of Pending
      "[Approve 5 9 4, Issue 12 4]"] demo_invariants(1,2) [of Pending]
  by (simp add: demo_run)

section \<open>issue followed by return\_equipment\<close>

lemma find_map_other:
  "k y' = b \<Longrightarrow> a \<noteq> b \<Longrightarrow>
   find (\<lambda>x. k x = a) (map (\<lambda>x. if k x = b then y' else x) xs) = find (\<lambda>x. k x = a) xs"
  by (induction xs) auto

lemma get_object_update_other:
  assumes "p' \<noteq> p" "pk r'' = Some p'"
  shows "get_object (update_request s p' r'') p = get_object s p"
proof -
  have eq: "find (\<lambda>x. pk x = Some p)
          (map (\<lambda>x. if pk x = Some p' then r'' else x) (borrow_requests s))
        = find (\<lambda>x. pk x = Some p) (borrow_requests s)"
    using assms by (intro find_map_other) simp_all
  show ?thesis unfolding get_object_def update_request_simps eq ..
qed

lemma find_append_Some: "find P xs = Some y \<Longrightarrow> find P (xs @ ys) = Some y"
  by (induction xs) (auto split: if_splits)

lemma get_object_insert:
  assumes "get_object s p = Some (r, e)" "pk r' = None"
  shows "get_object (fst (BorrowRequest_save s r')) p = Some (r, e)"
proof -
  note D = get_objectD [OF assms(1)]
  have rows: "borrow_requests (fst (BorrowRequest_save s r'))
                = borrow_requests s @ [r'\<lparr>pk := Some (next_request_pk s)\<rparr>]"
    using insert_request_simps [OF assms(2), of s] by simp
  have "find (\<lambda>x. pk x = Some p) (borrow_requests (fst (BorrowRequest_save s r'))) = Some r"
    unfolding rows using D by (intro find_append_Some) simp
  then show ?thesis using D by (simp add: get_object_def)
qed

lemma create_request_effect:
  "fst (create_request s now request_user d) = s
   \<or> (\<exists>r'. pk r' = None
            \<and> fst (create_request s now request_user d) = fst (BorrowRequest_save s r'))"
proof (cases "is_valid s now d")
  case (Inl err)
  then show ?thesis by (simp add: create_request_def)
next
  case (Inr a)
  obtain d' e where v: "is_valid s now d = Inr (d', e)" using Inr by (cases a) auto
  show ?thesis
  proof (cases "BorrowRequestSerializer_create s now request_user d' e")
    case (Inl err)
    then show ?thesis using v by (simp add: create_request_def)
  next
    case (Inr b)
    let ?r = "\<lparr>pk = None, user = request_user, equipment_id = eq_id e,
                      quantity = p_quantity d', purpose = p_purpose d', status = Pending,
                      requested_date = now, borrow_from = p_borrow_from d',
                      borrow_until = p_borrow_until d', approved_by = None,
                      approved_date = None, issued_date = None, returned_date = None,
                      rejection_reason = p_rejection_reason d', notes_text = p_notes d'\<rparr>"
    have "b = BorrowRequest_save s ?r"
      using Inr by (simp add: BorrowRequestSerializer_create_def Let_def split: if_splits)
    then have "fst (create_request s now request_user d) = fst (BorrowRequest_save s ?r)"
      using v Inr by (simp add: create_request_def split: prod.splits)
    moreover have "pk ?r = None" by simp
    ultimately show ?thesis by blast
  qed
qed

lemma get_object_create:
  assumes "get_object s p = Some (r, e)"
  shows "get_object (fst (create_request s now request_user d)) p = Some (r, e)"
  using create_request_effect [of s now request_user d] get_object_insert [OF assms] assms
  by auto

lemma get_object_approve:
  assumes "get_object s p = Some (r, e)" "status r \<noteq> Pending"
  shows "get_object (fst (approve s now request_user p')) p = Some (r, e)"
proof (cases "get_object s p'")
  case None
  then show ?thesis using assms(1) by (simp add: not_found_unchanged)
next
  case (Some a)
  obtain r2 e2 where g: "get_object s p' = Some (r2, e2)" using Some by (cases a) auto
  show ?thesis
  proof (cases "status r2 = Pending \<and> check_availability s e2 r2")
    case True
    then have ne: "p' \<noteq> p" using g assms by auto
    let ?r' = "r2\<lparr>status := Approved, approved_by := Some request_user,
                approved_date := Some now\<rparr>"
    have pk': "pk ?r' = Some p'" using get_objectD [OF g] by simp
    then have "fst (approve s now request_user p') = update_request s p' ?r'"
      using approve_success [OF g, of now request_user] True by (simp add: save_is_update)
    then show ?thesis using get_object_update_other [OF ne pk', of s] assms(1) by simp
  next
    case False
    then show ?thesis using approve_failure [OF g False] assms(1) by simp
  qed
qed

lemma get_object_reject:
  assumes "get_object s p = Some (r, e)" "status r \<noteq> Pending"
  shows "get_object (fst (reject s now request_user reason_param p')) p = Some (r, e)"
proof (cases "get_object s p'")
  case None
  then show ?thesis using assms(1) by (simp add: not_found_unchanged)
next
  case (Some a)
  obtain r2 e2 where g: "get_object s p' = Some (r2, e2)" using Some by (cases a) auto
  show ?thesis
  proof (cases "status r2 = Pending")
    case True
    then have ne: "p' \<noteq> p" using g assms by auto
    let ?r' = "r2\<lparr>status := Rejected,
                rejection_reason := (case reason_param of None \<Rightarrow> [] | Some x \<Rightarrow> x),
                approved_by := Some request_user, approved_date := Some now\<rparr>"
    have pk': "pk ?r' = Some p'" using get_objectD [OF g] by simp
    then have "fst (reject s now request_user reason_param p') = update_request s p' ?r'"
      using reject_success [OF g True, of now request_user reason_param]
      by (simp add: save_is_update)
    then show ?thesis using get_object_update_other [OF ne pk', of s] assms(1) by simp
  next
    case False
    then show ?thesis using reject_failure [OF g False] assms(1) by simp
  qed
qed

lemma booking_stateD:
  "booking_state p e r st a s \<Longrightarrow>
     \<exists>r' e'. get_object s p = Some (r', e') \<and> eq_id e' = eq_id e
        \<and> total_quantity e' = total_quantity e \<and> quantity r' = quantity r
        \<and> status r' = st \<and> available_quantity e' = a"
  by (auto simp: booking_state_def split: option.splits)

lemma booking_stateI:
  "get_object s p = Some (r', e') \<Longrightarrow> eq_id e' = eq_id e
     \<Longrightarrow> total_quantity e' = total_quantity e \<Longrightarrow> quantity r' = quantity r
     \<Longrightarrow> status r' = st \<Longrightarrow> available_quantity e' = a \<Longrightarrow> booking_state p e r st a s"
  by (simp add: booking_state_def)

lemma booking_state_get_object_eq:
  "get_object s' p = get_object s p \<Longrightarrow> booking_state p e r st a s
     \<Longrightarrow> booking_state p e r st a s'"
  by (simp add: booking_state_def)

lemma booking_state_issue:
  assumes "get_object s p = Some (r, e)" "status r = Approved"
    "quantity r \<le> available_quantity e" "available_quantity e \<le> total_quantity e"
    "1 \<le> quantity r"
  shows "booking_state p e r Issued (available_quantity e - quantity r) (fst (issue s now p))"
proof -
  let ?e1 = "e\<lparr>available_quantity := available_quantity e - quantity r\<rparr>"
  let ?r1 = "r\<lparr>status := Issued, issued_date := Some now\<rparr>"
  have i: "fst (issue s now p) = fst (BorrowRequest_save (Equipment_save s ?e1) ?r1)"
    using issue_success [OF assms(1-3), of now] by simp
  have pre: "Equipment_pre_save ?e1 = ?e1"
    using assms(4,5) by (simp add: Equipment_pre_save_def)
  have "get_object (fst (issue s now p)) p = Some (?r1, ?e1)"
    using get_object_after_saves [OF assms(1), of ?r1 ?e1] i pre by simp
  then show ?thesis by (rule booking_stateI) simp_all
qed

lemma booking_state_return:
  assumes "booking_state p e r Issued (available_quantity e - quantity r) s"
    "available_quantity e \<le> total_quantity e"
  shows "booking_state p e r Returned (available_quantity e)
           (fst (return_equipment s now notes_param p))
       \<and> status_code (snd (return_equipment s now notes_param p)) = HTTP_200_OK"
proof -
  obtain r' e' where g: "get_object s p = Some (r', e')" and f: "eq_id e' = eq_id e"
      "total_quantity e' = total_quantity e" "quantity r' = quantity r"
      "status r' = Issued" "available_quantity e' = available_quantity e - quantity r"
    using booking_stateD [OF assms(1)] by blast
  let ?e2 = "e'\<lparr>available_quantity := available_quantity e' + quantity r'\<rparr>"
  let ?r2 = "r'\<lparr>status := Returned, returned_date := Some now,
                 notes_text := (case notes_param of None \<Rightarrow> notes_text r'
                               | Some x \<Rightarrow> if x \<noteq> [] then x else notes_text r')\<rparr>"
  have ret: "return_equipment s now notes_param p =
             (fst (BorrowRequest_save (Equipment_save s ?e2) ?r2),
              Response (RequestData ?r2) HTTP_200_OK)"
    using return_success [OF g, of now notes_param] f(4) by simp
  have pre: "Equipment_pre_save ?e2 = ?e2"
    using assms(2) f by (simp add: Equipment_pre_save_def)
  have "get_object (fst (return_equipment s now notes_param p)) p = Some (?r2, ?e2)"
    using get_object_after_saves [OF g, of ?r2 ?e2] ret pre by simp
  then have "booking_state p e r Returned (available_quantity e)
           (fst (return_equipment s now notes_param p))"
    by (rule booking_stateI) (simp_all add: f)
  then show ?thesis using ret by (simp add: Response_def)
qed

lemma booking_state_return_again:
  assumes "booking_state p e r Returned a s"
  shows "fst (return_equipment s now notes_param p) = s"
proof -
  obtain r' e' where g: "get_object s p = Some (r', e')" and st: "status r' = Returned"
    using booking_stateD [OF assms] by blast
  show ?thesis using return_failure [OF g, of now notes_param] st by simp
qed

lemma booking_state_issue_again:
  assumes "booking_state p e r st a s" "st \<noteq> Approved"
  shows "fst (issue s now p) = s"
proof -
  obtain r' e' where g: "get_object s p = Some (r', e')" and st: "status r' = st"
    using booking_stateD [OF assms(1)] by blast
  show ?thesis using issue_failure [OF g, of now] st assms(2) by simp
qed

lemma booking_state_other:
  assumes "booking_state p e r st a s" "st \<noteq> Pending"
  shows "booking_state p e r st a (fst (create_request s now request_user d))"
    and "booking_state p e r st a (fst (approve s now request_user p'))"
    and "booking_state p e r st a (fst (reject s now request_user reason_param p'))"
proof -
  obtain r' e' where g: "get_object s p = Some (r', e')" and st: "status r' = st"
    using booking_stateD [OF assms(1)] by blast
  have ne: "status r' \<noteq> Pending" using st assms(2) by simp
  show "booking_state p e r st a (fst (create_request s now request_user d))"
    using booking_state_get_object_eq [OF _ assms(1)] get_object_create [OF g] g by simp
  show "booking_state p e r st a (fst (approve s now request_user p'))"
    using booking_state_get_object_eq [OF _ assms(1)] get_object_approve [OF g ne] g by simp
  show "booking_state p e r st a (fst (reject s now request_user reason_param p'))"
    using booking_state_get_object_eq [OF _ assms(1)] get_object_reject [OF g ne] g by simp
qed

lemma round_trip_step:
  assumes "booking_state p e r Issued (available_quantity e - quantity r) s
           \<or> booking_state p e r Returned (available_quantity e) s"
    "\<not> other_issue_or_return p op" "available_quantity e \<le> total_quantity e"
  shows "booking_state p e r Issued (available_quantity e - quantity r) (step s op)
           \<or> booking_state p e r Returned (available_quantity e) (step s op)"
proof (cases op)
  case (Create now u d)
  then show ?thesis using assms(1) booking_state_other(1) by auto
next
  case (Approve now u p')
  then show ?thesis using assms(1) booking_state_other(2) by auto
next
  case (Reject now u reason p')
  then show ?thesis using assms(1) booking_state_other(3) by auto
next
  case (Issue now p')
  then have "p' = p" using assms(2) by (simp add: other_issue_or_return_def)
  then have "step s op = s"
    using assms(1) Issue booking_state_issue_again [of p e r _ _ s now] by auto
  then show ?thesis using assms(1) by simp
next
  case (Return now notes_param p')
  then have p': "p' = p" using assms(2) by (simp add: other_issue_or_return_def)
  from assms(1) show ?thesis
  proof
    assume "booking_state p e r Issued (available_quantity e - quantity r) s"
    then show ?thesis
      using booking_state_return [OF _ assms(3), of p r s now notes_param] Return p' by simp
  next
    assume b: "booking_state p e r Returned (available_quantity e) s"
    then show ?thesis
      using booking_state_return_again [OF b, of now notes_param] Return p' by simp
  qed
qed

lemma round_trip_run:
  assumes "booking_state p e r Issued (available_quantity e - quantity r) s
           \<or> booking_state p e r Returned (available_quantity e) s"
    "list_all (\<lambda>op. \<not> other_issue_or_return p op) ops"
    "available_quantity e \<le> total_quantity e"
  shows "booking_state p e r Issued (available_quantity e - quantity r) (run s ops)
           \<or> booking_state p e r Returned (available_quantity e) (run s ops)"
  using assms(1,2)
proof (induction ops arbitrary: s)
  case Nil
  then show ?case by (simp add: run_Nil)
next
  case (Cons op ops)
  have "booking_state p e r Issued (available_quantity e - quantity r) (step s op)
           \<or> booking_state p e r Returned (available_quantity e) (step s op)"
    using round_trip_step [OF Cons.prems(1) _ assms(3), of op] Cons.prems(2) by simp
  then show ?case using Cons.IH Cons.prems(2) by (simp add: run_Cons)
qed

lemma run_append: "run s (ops @ ops') = run (run s ops) ops'"
  by (simp add: run_def)

text \<open>
  Claim C7, as the code has it. In a state that respects the data model (the counter not
  above the total, the quantity at least 1), for an approved request whose quantity the
  counter covers: \<^verbatim>\<open>issue\<close> succeeds, \<^verbatim>\<open>return_equipment\<close> right after it succeeds, and
  \<^verbatim>\<open>issue\<close> followed by \<^verbatim>\<open>return_equipment\<close> on that request, with any operations in
  between that neither issue nor return another request, leaves the equipment's counter at
  the value it had before.
\<close>

theorem issue_return_round_trip:
  assumes "get_object s p = Some (r, e)" and "status r = Approved"
    and "quantity r \<le> available_quantity e"
    and "available_quantity e \<le> total_quantity e" and "1 \<le> quantity r"
    and "list_all (\<lambda>op. \<not> other_issue_or_return p op) between"
  shows "status_code (snd (issue s now p)) = HTTP_200_OK
       \<and> status_code (snd (return_equipment (fst (issue s now p)) now' notes_param p))
           = HTTP_200_OK
       \<and> map_option available_quantity
           (get_equipment (run s (Issue now p # between @ [Return now' notes_param p]))
              (eq_id e))
           = Some (available_quantity e)"
proof -
  let ?A = "\<lambda>s. booking_state p e r Issued (available_quantity e - quantity r) s"
  let ?B = "\<lambda>s. booking_state p e r Returned (available_quantity e) s"
  let ?s1 = "fst (issue s now p)"
  let ?s2 = "run ?s1 between"
  let ?s3 = "fst (return_equipment ?s2 now' notes_param p)"
  have i: "status_code (snd (issue s now p)) = HTTP_200_OK"
    using issue_success [OF assms(1-3), of now] by (simp add: Response_def)
  have A1: "?A ?s1" by (rule booking_state_issue [OF assms(1-5)])
  have r: "status_code (snd (return_equipment ?s1 now' notes_param p)) = HTTP_200_OK"
    using booking_state_return [OF A1 assms(4)] by simp
  have "?A ?s2 \<or> ?B ?s2"
    using round_trip_run [OF _ assms(6,4), of r ?s1] A1 by simp
  then have "?B ?s3"
  proof
    assume "?A ?s2"
    then show ?thesis using booking_state_return [OF _ assms(4)] by simp
  next
    assume b: "?B ?s2"
    then show ?thesis using booking_state_return_again [OF b, of now' notes_param] by simp
  qed
  then obtain r' e' where g: "get_object ?s3 p = Some (r', e')" and f: "eq_id e' = eq_id e"
      "available_quantity e' = available_quantity e"
    using booking_stateD [of p e r Returned "available_quantity e" ?s3] by blast
  have "get_equipment ?s3 (eq_id e) = Some e'"
    using get_object_equipment [OF g] f(1) by simp
  moreover have "run s (Issue now p # between @ [Return now' notes_param p]) = ?s3"
    by (simp add: run_Cons run_append run_Nil)
  ultimately show ?thesis using i r f(2) by simp
qed

theorem issue_return_round_trip_witness:
  "list_all (\<lambda>op. \<not> other_issue_or_return 4 op)
     [Create 13 9 scenario_d_payload, Approve 14 9 4, Issue 15 4]
   \<and> status_code (snd (issue (demo_db Approved) 12 4)) = HTTP_200_OK
   \<and> map_option available_quantity
        (get_equipment (fst (issue (demo_db Approved) 12 4)) 3) = Some 3
   \<and> map_option available_quantity
        (get_equipment
           (run (demo_db Approved)
              [Issue 12 4, Create 13 9 scenario_d_payload, Approve 14 9 4, Issue 15 4,
               Return 19 None 4]) 3)
      = Some 5"
proof -
  have a: "map_option available_quantity
        (get_equipment (fst (issue (demo_db Approved) 12 4)) 3) = Some 3"
    by (simp add: issue_def get_object_def get_equipment_def Let_def Equipment_save_def
        Equipment_pre_save_def BorrowRequest_save_def demo_db_def demo_request_def
        demo_equipment_def)
  have b: "list_all (\<lambda>op. \<not> other_issue_or_return 4 op)
     [Create 13 9 scenario_d_payload, Approve 14 9 4, Issue 15 4]"
    by (simp add: other_issue_or_return_def)
  show ?thesis
    using issue_return_round_trip [OF demo_get_object _ _ _ _ b, of Approved 12 19 None] a b
    by (simp add: demo_request_def demo_equipment_def)
qed

text \<open>
  A return of another request in between breaks the round trip, although no other request
  is issued: with four units on hand, issuing request 4 (two units), returning request 5
  (one unit) and returning request 4 leaves five units on hand; without the return of
  request 5 it leaves four.
\<close>

lemma round_trip_db_get:
  "get_object round_trip_db 4
     = Some (demo_request\<lparr>status := Approved\<rparr>, demo_equipment\<lparr>available_quantity := 4\<rparr>)"
  "get_object round_trip_db 5
     = Some (demo_request\<lparr>pk := Some 5, status := Issued, quantity := 1\<rparr>,
             demo_equipment\<lparr>available_quantity := 4\<rparr>)"
  by (simp_all add: get_object_def round_trip_db_def demo_request_def demo_equipment_def)

theorem round_trip_broken_by_other_return:
  "map available_quantity (equipment_table round_trip_db) = [4]
   \<and> map (\<lambda>r. (pk r, status r, quantity r)) (borrow_requests round_trip_db)
       = [(Some 4, Approved, 2), (Some 5, Issued, 1)]
   \<and> map available_quantity
        (equipment_table (run round_trip_db [Issue 12 4, Return 13 None 5, Return 14 None 4]))
       = [5]
   \<and> map available_quantity
        (equipment_table (run round_trip_db [Issue 12 4, Return 14 None 4]))
       = [4]"
proof -
  let ?e = "demo_equipment\<lparr>available_quantity := 4\<rparr>"
  let ?r4 = "demo_request\<lparr>status := Approved\<rparr>"
  let ?r5 = "demo_request\<lparr>pk := Some 5, status := Issued, quantity := 1\<rparr>"
  let ?r4i = "?r4\<lparr>status := Issued, issued_date := Some 12\<rparr>"
  let ?r5r = "?r5\<lparr>status := Returned, returned_date := Some 13\<rparr>"
  let ?s1 = "round_trip_db\<lparr>equipment_table := [demo_equipment\<lparr>available_quantity := 2\<rparr>],
                           borrow_requests := [?r4i, ?r5]\<rparr>"
  let ?s2 = "round_trip_db\<lparr>equipment_table := [demo_equipment\<lparr>available_quantity := 3\<rparr>],
                           borrow_requests := [?r4i, ?r5r]\<rparr>"
  have 0: "map available_quantity (equipment_table round_trip_db) = [4]"
    "map (\<lambda>r. (pk r, status r, quantity r)) (borrow_requests round_trip_db)
       = [(Some 4, Approved, 2), (Some 5, Issued, 1)]"
    by (simp_all add: round_trip_db_def demo_request_def demo_equipment_def)
  have 1: "step round_trip_db (Issue 12 4) = ?s1"
    using issue_success [OF round_trip_db_get(1), of 12]
    by (simp add: BorrowRequest_save_def Equipment_save_def Equipment_pre_save_def
        round_trip_db_def demo_request_def demo_equipment_def)
  have g5: "get_object ?s1 5 = Some (?r5, demo_equipment\<lparr>available_quantity := 2\<rparr>)"
    by (simp add: get_object_def round_trip_db_def demo_request_def demo_equipment_def)
  have 2: "step ?s1 (Return 13 None 5) = ?s2"
    using return_success [OF g5, of 13 None]
    by (simp add: BorrowRequest_save_def Equipment_save_def Equipment_pre_save_def
        round_trip_db_def demo_request_def demo_equipment_def)
  have g4: "get_object ?s2 4 = Some (?r4i, demo_equipment\<lparr>available_quantity := 3\<rparr>)"
    by (simp add: get_object_def round_trip_db_def demo_request_def demo_equipment_def)
  have 3: "map available_quantity (equipment_table (step ?s2 (Return 14 None 4))) = [5]"
    using return_success [OF g4, of 14 None]
    by (simp add: BorrowRequest_save_def Equipment_save_def Equipment_pre_save_def
        round_trip_db_def demo_request_def demo_equipment_def)
  have g4': "get_object ?s1 4 = Some (?r4i, demo_equipment\<lparr>available_quantity := 2\<rparr>)"
    by (simp add: get_object_def round_trip_db_def demo_request_def demo_equipment_def)
  have 4: "map available_quantity (equipment_table (step ?s1 (Return 14 None 4))) = [4]"
    using return_success [OF g4', of 14 None]
    by (simp add: BorrowRequest_save_def Equipment_save_def Equipment_pre_save_def
        round_trip_db_def demo_request_def demo_equipment_def)
  have a: "map available_quantity
        (equipment_table (run round_trip_db [Issue 12 4, Return 13 None 5, Return 14 None 4]))
       = [5]"
    unfolding run_Cons run_Nil 1 2 by (rule 3)
  have b: "map available_quantity
        (equipment_table (run round_trip_db [Issue 12 4, Return 14 None 4])) = [4]"
    unfolding run_Cons run_Nil 1 by (rule 4)
  show ?thesis using 0 a b by blast
qed

end
